theory Spec2Isabelle
  imports Complex_Main "HOL-Library.Word" "HOL-Library.Sublist"
begin

unbundle bit_operations_syntax

section \<open>The function tree: keys, tensors and nodes\<close>

text \<open>
  The multiresolution part of the program is templated over the coefficient type \<open>T\<close>
  and the dimension \<open>NDIM\<close>.  The embedding fixes \<open>T = double\<close>, read as a real number
  (rounding is not modelled), and carries \<open>NDIM\<close> as the length of the translation vector.
\<close>

subsection \<open>Keys\<close>

text \<open>
  Modelled from the spec: the class \<open>Key\<close> (header \<open>mra/key.h\<close>) is not among the sources.
  A key is a level \<open>n \<ge> 0\<close> and an integer translation vector; the parent drops the low
  bit of each coordinate and decrements the level; \<open>distsq\<close> is the squared length of the
  translation vector.  The invalid key returned by \<open>neighbor\<close> is \<open>None\<close> of \<open>key option\<close>.
\<close>

record key =
  level :: nat
  translation :: "int list"

definition key0 :: "nat \<Rightarrow> key" where
  "key0 ndim = \<lparr>level = 0, translation = replicate ndim 0\<rparr>"

definition parent :: "key \<Rightarrow> key" where
  "parent k = \<lparr>level = level k - 1, translation = map (\<lambda>l. l div 2) (translation k)\<rparr>"

definition distsq :: "key \<Rightarrow> int" where
  "distsq d = sum_list (map (\<lambda>l. l * l) (translation d))"

subsection \<open>Tensors\<close>

text \<open>
  Modelled from the spec: the dense tensor class (header \<open>tensor/tensor.h\<close>) is not among
  the sources.  A tensor is its shape and its elements, addressed by a multi-index.  The
  operations are the element-wise ones the spec lists for the tensor backend; operands of
  a binary operation must have the same shape, a mismatch is a contract violation.
\<close>

record tensor =
  dims :: "nat list"
  elem :: "nat list \<Rightarrow> real"

datatype error =
    TruncateModeInvalid int
  | TensorShapeMismatch
  | UndefinedShift nat

definition tsize :: "tensor \<Rightarrow> nat" where
  "tsize t = prod_list (dims t)"

definition t_scale :: "tensor \<Rightarrow> real \<Rightarrow> tensor" where
  "t_scale t a = t\<lparr>elem := (\<lambda>i. elem t i * a)\<rparr>"

definition t_gaxpy :: "real \<Rightarrow> tensor \<Rightarrow> tensor \<Rightarrow> real \<Rightarrow> error + tensor" where
  "t_gaxpy alpha t other beta =
     (if dims t = dims other
      then Inr (t\<lparr>elem := (\<lambda>i. alpha * elem t i + beta * elem other i)\<rparr>)
      else Inl TensorShapeMismatch)"

definition t_add :: "tensor \<Rightarrow> tensor \<Rightarrow> error + tensor" where
  "t_add t other =
     (if dims t = dims other
      then Inr (t\<lparr>elem := (\<lambda>i. elem t i + elem other i)\<rparr>)
      else Inl TensorShapeMismatch)"

subsection \<open>Nodes\<close>

text \<open>
  \<open>FunctionNode\<close>: the coefficients (if any), the cached norm of the subtree and the
  children flag.  A default-constructed \<open>Tensor\<close> holds no data; it is \<open>None\<close> here, and
  \<open>has_coeff\<close> tests the size as the source does.  \<open>norm_tree_unset\<close> is the literal
  \<open>1e300\<close> both constructors store.
\<close>

record FunctionNode =
  n_coeffs :: "tensor option"
  n_norm_tree :: real
  n_has_children :: bool

definition norm_tree_unset :: real where
  "norm_tree_unset = 10 ^ 300"

definition FunctionNode_default :: FunctionNode where
  "FunctionNode_default = \<lparr>n_coeffs = None, n_norm_tree = norm_tree_unset, n_has_children = False\<rparr>"

definition FunctionNode_of :: "tensor option \<Rightarrow> bool \<Rightarrow> FunctionNode" where
  "FunctionNode_of c hc = \<lparr>n_coeffs = c, n_norm_tree = norm_tree_unset, n_has_children = hc\<rparr>"

definition has_coeff :: "FunctionNode \<Rightarrow> bool" where
  "has_coeff n = (case n_coeffs n of None \<Rightarrow> False | Some t \<Rightarrow> 0 < tsize t)"

definition has_children :: "FunctionNode \<Rightarrow> bool" where
  "has_children n = n_has_children n"

definition is_leaf :: "FunctionNode \<Rightarrow> bool" where
  "is_leaf n = (\<not> n_has_children n)"

definition clear_coeff :: "FunctionNode \<Rightarrow> FunctionNode" where
  "clear_coeff n = n\<lparr>n_coeffs := None\<rparr>"

text \<open>
  \<open>FunctionNode::gaxpy_inplace\<close>: \<open>this = this*alpha + other*beta\<close>, where either node
  may be without coefficients.
\<close>

definition gaxpy_inplace :: "real \<Rightarrow> FunctionNode \<Rightarrow> FunctionNode \<Rightarrow> real \<Rightarrow> error + FunctionNode" where
  "gaxpy_inplace alpha this other beta =
     (let this1 = (if has_children other then this\<lparr>n_has_children := True\<rparr> else this)
      in case n_coeffs this1 of
           Some c \<Rightarrow>
             (if 0 < tsize c then
                (case n_coeffs other of
                   Some oc \<Rightarrow>
                     (if 0 < tsize oc then
                        (case t_gaxpy alpha c oc beta of
                           Inl e \<Rightarrow> Inl e
                         | Inr c' \<Rightarrow> Inr (this1\<lparr>n_coeffs := Some c'\<rparr>))
                      else Inr (this1\<lparr>n_coeffs := Some (t_scale c alpha)\<rparr>))
                 | None \<Rightarrow> Inr (this1\<lparr>n_coeffs := Some (t_scale c alpha)\<rparr>))
              else if has_coeff other
                   then Inr (this1\<lparr>n_coeffs := map_option (\<lambda>oc. t_scale oc beta) (n_coeffs other)\<rparr>)
                   else Inr this1)
         | None \<Rightarrow>
             (if has_coeff other
              then Inr (this1\<lparr>n_coeffs := map_option (\<lambda>oc. t_scale oc beta) (n_coeffs other)\<rparr>)
              else Inr this1))"

section \<open>FunctionImpl\<close>

text \<open>
  The members of \<open>FunctionImpl\<close> the verified operations read: the wavelet order \<open>k\<close>, the
  screening threshold, the truncation mode, the boundary conditions (one row
  \<open>(bc(i,0), bc(i,1))\<close> per axis), the local part of the container of nodes and the
  two flags of the compressed form.
  \<open>cell_min_width\<close> stands for \<open>FunctionDefaults<NDIM>::get_cell_min_width()\<close>, a
  process-wide setting that is not among the sources.
\<close>

record FunctionImpl =
  k :: nat
  ndim :: nat
  thresh :: real
  truncate_mode :: int
  bc :: "(int \<times> int) list"
  cell_min_width :: real
  coeffs :: "key \<Rightarrow> FunctionNode option"
  nonstandard :: bool
  compressed :: bool

text \<open>\<open>FunctionImpl::truncate_tol\<close>; \<open>MADNESS_EXCEPTION\<close> is the error value.\<close>

definition truncate_tol :: "FunctionImpl \<Rightarrow> real \<Rightarrow> key \<Rightarrow> error + real" where
  "truncate_tol f tol ky =
     (if truncate_mode f = 0 then Inr tol
      else if truncate_mode f = 1 then
        (let L = cell_min_width f in Inr (tol * min 1 ((1 / 2) ^ level ky * L)))
      else if truncate_mode f = 2 then
        (let L = cell_min_width f in Inr (tol * min 1 ((1 / 4) ^ level ky * L * L)))
      else Inl (TruncateModeInvalid (truncate_mode f)))"

text \<open>
  \<open>FunctionImpl::truncate\<close> (named \<open>FunctionImpl_truncate\<close>: every record has a \<open>truncate\<close> of its own).
  The calls it makes are returned in order: the body of
  \<open>truncate_spawn\<close> and the fence of the runtime are not among the sources.  \<open>rank\<close> is
  \<open>world.rank()\<close> and \<open>owner\<close> is \<open>coeffs.owner\<close>, the process map.
\<close>

datatype call =
    Truncate_spawn key real
  | Fence

definition FunctionImpl_truncate :: "FunctionImpl \<Rightarrow> nat \<Rightarrow> (key \<Rightarrow> nat) \<Rightarrow> real \<Rightarrow> bool \<Rightarrow> FunctionImpl \<times> call list" where
  "FunctionImpl_truncate f rank owner tol fence =
     (let tol1 = (if tol \<le> 0 then thresh f else tol)
      in (f, (if rank = owner (key0 (ndim f)) then [Truncate_spawn (key0 (ndim f)) tol1] else [])
             @ (if fence then [Fence] else [])))"

text \<open>
  \<open>FunctionImpl::standard\<close>.  \<open>cdata.s0\<close> is the slice \<open>[0, k)\<close> in every dimension;
  \<open>zero_s0\<close> is the sliced assignment \<open>coeff()(cdata.s0) = 0.0\<close>.  The loop visits every
  entry of the local container and updates that entry alone, so it is a map over the
  entries.
\<close>

definition in_s0 :: "nat \<Rightarrow> nat list \<Rightarrow> bool" where
  "in_s0 kk idx = list_all (\<lambda>i. i < kk) idx"

definition zero_s0 :: "nat \<Rightarrow> tensor \<Rightarrow> tensor" where
  "zero_s0 kk t = t\<lparr>elem := (\<lambda>idx. if in_s0 kk idx then 0 else elem t idx)\<rparr>"

definition standard_node :: "nat \<Rightarrow> key \<Rightarrow> FunctionNode \<Rightarrow> FunctionNode" where
  "standard_node kk ky node =
     (if 0 < level ky \<and> has_coeff node then
        (if has_children node
         then node\<lparr>n_coeffs := map_option (zero_s0 kk) (n_coeffs node)\<rparr>
         else clear_coeff node)
      else node)"

definition standard :: "FunctionImpl \<Rightarrow> bool \<Rightarrow> FunctionImpl \<times> call list" where
  "standard f fence =
     (f\<lparr>coeffs := (\<lambda>ky. map_option (standard_node (k f) ky) (coeffs f ky))\<rparr>,
      if fence then [Fence] else [])"

subsection \<open>Applying an integral operator\<close>

text \<open>
  The operator type \<open>opT\<close> is a template argument; \<open>do_apply\<close> uses three of its
  members: the displacement list of a level, the norm of the operator at a level and
  displacement, and the application to a block of coefficients.
\<close>

record convolution_op =
  get_disp :: "nat \<Rightarrow> key list"
  op_norm :: "nat \<Rightarrow> key \<Rightarrow> real"
  op_apply :: "key \<Rightarrow> key \<Rightarrow> tensor \<Rightarrow> real \<Rightarrow> tensor"

record do_op_args =
  a_key :: key
  a_d :: key
  a_dest :: key
  a_tol :: real
  a_fac :: real
  a_cnorm :: real

text \<open>
  \<open>const long lmax = 1L << (key.level()-1)\<close>.  The shift is defined for a count from 0
  to 62; at the root the count is \<open>-1\<close> and C++ leaves the value undefined.  \<open>lmax\<close> is
  read on a periodic axis only, and the model reports the undefined value there.
\<close>

definition lmax_of :: "nat \<Rightarrow> int option" where
  "lmax_of n = (if 1 \<le> n \<and> n \<le> 63 then Some (2 ^ (n - 1)) else None)"

text \<open>
  The loop over the axes that sets \<open>doit\<close>: the rows of \<open>bc\<close> and the components of the
  displacement are visited together, \<open>i = 0, ..., NDIM-1\<close>.  The \<open>break\<close> stands after
  the test, inside \<open>if (bc(i,0) == 1)\<close>: the loop ends at the first periodic axis.
\<close>

fun periodic_doit :: "nat \<Rightarrow> (int \<times> int) list \<Rightarrow> int list \<Rightarrow> error + bool" where
  "periodic_doit n [] ls = Inr True"
| "periodic_doit n (b # bs) [] = Inr True"
| "periodic_doit n (b # bs) (l # ls) =
     (if fst b = 1 then
        (case lmax_of n of
           None \<Rightarrow> Inl (UndefinedShift n)
         | Some lmax \<Rightarrow> Inr (\<not> (l > lmax \<or> l \<le> - lmax)))
      else periodic_doit n bs ls)"

text \<open>
  The body of the loop over the displacements, for one displacement: it ends the loop,
  goes on to the next displacement, or schedules \<open>do_apply_kernel\<close> with the arguments
  and goes on.  \<open>nbr\<close> is \<open>FunctionImpl::neighbor\<close> (declared, its body is not among the
  sources); \<open>None\<close> is the invalid key.
\<close>

datatype step = Break | Skip | Schedule do_op_args

definition do_apply_step ::
  "FunctionImpl \<Rightarrow> (key \<Rightarrow> key \<Rightarrow> key option) \<Rightarrow> convolution_op \<Rightarrow> key \<Rightarrow> real \<Rightarrow> key \<Rightarrow> error + step" where
  "do_apply_step f nbr op ky cnorm d =
     (let fac = 3; dest = nbr ky d in
      case periodic_doit (level ky) (bc f) (translation d) of
        Inl e \<Rightarrow> Inl e
      | Inr doit \<Rightarrow>
          if \<not> doit then Inr Break
          else (case dest of
                  None \<Rightarrow> Inr Skip
                | Some dst \<Rightarrow>
                    (let opnorm = op_norm op (level ky) d in
                     case truncate_tol f (thresh f) ky of
                       Inl e \<Rightarrow> Inl e
                     | Inr tol \<Rightarrow>
                         if cnorm * opnorm > tol / fac
                         then Inr (Schedule \<lparr>a_key = ky, a_d = d, a_dest = dst, a_tol = tol,
                                             a_fac = fac, a_cnorm = cnorm\<rparr>)
                         else if distsq d \<ge> 1 then Inr Break
                         else Inr Skip)))"

fun do_apply_loop ::
  "FunctionImpl \<Rightarrow> (key \<Rightarrow> key \<Rightarrow> key option) \<Rightarrow> convolution_op \<Rightarrow> key \<Rightarrow> real \<Rightarrow> key list \<Rightarrow> error + do_op_args list" where
  "do_apply_loop f nbr op ky cnorm [] = Inr []"
| "do_apply_loop f nbr op ky cnorm (d # ds) =
     (case do_apply_step f nbr op ky cnorm d of
        Inl e \<Rightarrow> Inl e
      | Inr Break \<Rightarrow> Inr []
      | Inr Skip \<Rightarrow> do_apply_loop f nbr op ky cnorm ds
      | Inr (Schedule a) \<Rightarrow>
          (case do_apply_loop f nbr op ky cnorm ds of
             Inl e \<Rightarrow> Inl e
           | Inr ts \<Rightarrow> Inr (a # ts)))"

text \<open>
  \<open>FunctionImpl::do_apply\<close>: the kernel tasks it schedules, in order.  \<open>normf\<close> is the
  Frobenius norm of the tensor backend.  The timing of the call is not modelled.
\<close>

definition do_apply ::
  "FunctionImpl \<Rightarrow> (key \<Rightarrow> key \<Rightarrow> key option) \<Rightarrow> (tensor \<Rightarrow> real) \<Rightarrow> convolution_op \<Rightarrow> key \<Rightarrow> tensor \<Rightarrow> error + do_op_args list" where
  "do_apply f nbr normf op ky c =
     do_apply_loop f nbr op ky (normf c) (get_disp op (level ky))"

text \<open>
  \<open>do_apply_kernel\<close> sends \<open>accumulate\<close> to the node of the destination key, or nothing.
\<close>

datatype message =
    Accumulate key tensor
  | Set_has_children_recursive key

definition do_apply_kernel :: "(tensor \<Rightarrow> real) \<Rightarrow> convolution_op \<Rightarrow> tensor \<Rightarrow> do_op_args \<Rightarrow> message list" where
  "do_apply_kernel normf op c args =
     (let result = op_apply op (a_key args) (a_d args) c (a_tol args / a_fac args / a_cnorm args)
      in if normf result > 0.3 * a_tol args / a_fac args
         then [Accumulate (a_dest args) result]
         else [])"

text \<open>
  \<open>FunctionNode::accumulate\<close>: the new node, and the task sent to the parent when the
  node is new.
\<close>

definition accumulate :: "tensor \<Rightarrow> key \<Rightarrow> FunctionNode \<Rightarrow> error + FunctionNode \<times> message list" where
  "accumulate t ky node =
     (if has_coeff node then
        (case n_coeffs node of
           None \<Rightarrow> Inr (node, [])
         | Some c \<Rightarrow>
             (case t_add c t of
                Inl e \<Rightarrow> Inl e
              | Inr c' \<Rightarrow> Inr (node\<lparr>n_coeffs := Some c'\<rparr>, [])))
      else
        Inr (node\<lparr>n_coeffs := Some t\<rparr>,
             if \<not> n_has_children node \<and> level ky > 0
             then [Set_has_children_recursive (parent ky)]
             else []))"

text \<open>
  Modelled from the spec: the container's \<open>send\<close> (\<open>WorldContainer\<close> is not among the
  sources) runs the method on the node of the key on its owner, creating the node if it
  is absent.
\<close>

definition send_accumulate ::
  "(key \<Rightarrow> FunctionNode option) \<Rightarrow> key \<Rightarrow> tensor \<Rightarrow> error + (key \<Rightarrow> FunctionNode option) \<times> message list" where
  "send_accumulate cs dest t =
     (let node = (case cs dest of None \<Rightarrow> FunctionNode_default | Some n \<Rightarrow> n)
      in case accumulate t dest node of
           Inl e \<Rightarrow> Inl e
         | Inr (node', ms) \<Rightarrow> Inr (cs(dest \<mapsto> node'), ms))"

subsection \<open>Compression\<close>















section \<open>The remote method invocation layer\<close>

text \<open>
  \<open>attrT\<close> is an unsigned 32-bit integer and \<open>counterT\<close> an unsigned 16-bit one.  The
  constants of the header \<open>world/worldrmi.h\<close>, which is not among the sources, and the
  members the constructor sets are the fields of a configuration: the two attribute
  values, \<open>HEADER_LEN\<close>, \<open>max_msg_len_\<close>, \<open>nrecv_\<close>, \<open>maxq_\<close>, the rank of the process, and
  the sizes of \<open>size_t\<close> and \<open>int\<close>.  The member \<open>rank\<close> is the field \<open>rmi_rank\<close>.
\<close>

type_synonym attrT = "32 word"
type_synonym counterT = "16 word"

record rmi_config =
  ATTR_UNORDERED :: attrT
  ATTR_ORDERED :: attrT
  HEADER_LEN :: nat
  max_msg_len :: nat
  nrecv :: nat
  maxq :: nat
  rmi_rank :: nat
  sizeof_size_t :: nat
  sizeof_int :: nat

datatype rmi_handler = Huge_msg_handler | User_handler nat

datatype tag = RMI_TAG | RMI_HUGE_ACK_TAG | RMI_HUGE_DAT_TAG

datatype rmi_error =
    Queue_overflow nat
  | Alloc_failed
  | Post_recv_confusion nat
  | Buffer_too_small nat

definition is_ordered :: "rmi_config \<Rightarrow> attrT \<Rightarrow> bool" where
  "is_ordered cfg attr = (attr AND ATTR_ORDERED cfg \<noteq> 0)"

text \<open>\<open>counterT count = (attr>>16)\<close>: the high 16 bits of the attribute.\<close>

definition count_of :: "attrT \<Rightarrow> counterT" where
  "count_of attr = ucast (drop_bit 16 attr)"

subsection \<open>Sending\<close>

text \<open>
  The sender's state: the send counters and the statistics.  A message buffer is its
  header, which \<open>private_isend\<close> writes, and its body; of the body the model keeps the two
  words that follow the header, which is where the control record of a huge message has
  the rank of its sender and the byte count.  The calls of the transport and of the mutex
  are returned in the order they are made.
\<close>

record sender =
  send_counters :: "nat \<Rightarrow> counterT"
  nmsg_sent :: nat
  nbyte_sent :: nat

datatype send_event =
    Irecv_ack nat nat
  | Wait_send
  | Wait_ack
  | Lock
  | Unlock
  | Isend nat nat rmi_handler attrT tag "nat \<times> nat"

text \<open>
  \<open>while (!req.Test()) waiter.wait()\<close>: the outcomes of the successive calls of \<open>Test\<close>
  are given; the loop returns at the first \<open>true\<close>, with the outcomes not yet read, and
  does not return (\<open>None\<close>) when there is none.
\<close>

fun wait_req :: "bool list \<Rightarrow> bool list option" where
  "wait_req [] = None"
| "wait_req (t # ts) = (if t then Some ts else wait_req ts)"

text \<open>
  The part of \<open>private_isend\<close> after the choice of the tag: under the mutex, stamp an
  ordered message with the send counter of the destination and increment the counter,
  write the header, count the message and hand it to \<open>Isend\<close>.  The counter is promoted to
  \<open>int\<close> and shifted left by 16; the result is read as the 32-bit pattern.
\<close>

definition send_locked ::
  "rmi_config \<Rightarrow> sender \<Rightarrow> nat \<times> nat \<Rightarrow> nat \<Rightarrow> nat \<Rightarrow> rmi_handler \<Rightarrow> attrT \<Rightarrow> tag \<Rightarrow> sender \<times> send_event list" where
  "send_locked cfg st body nbyte dest func attr tg =
     (let attr1 = (if is_ordered cfg attr
                   then attr OR push_bit 16 (ucast (send_counters st dest))
                   else attr);
          st1 = (if is_ordered cfg attr
                 then st\<lparr>send_counters := (send_counters st)(dest := send_counters st dest + 1)\<rparr>
                 else st)
      in (st1\<lparr>nmsg_sent := nmsg_sent st1 + 1, nbyte_sent := nbyte_sent st1 + nbyte\<rparr>,
          [Lock, Isend dest nbyte func attr1 tg body, Unlock]))"

text \<open>
  \<open>sizeof(info)\<close>, the length of the control record: \<open>nword + 2\<close> words with
  \<open>nword = HEADER_LEN/sizeof(size_t)\<close>.
\<close>

definition info_len :: "rmi_config \<Rightarrow> nat" where
  "info_len cfg = (HEADER_LEN cfg div sizeof_size_t cfg + 2) * sizeof_size_t cfg"

text \<open>
  \<open>RMI::private_isend\<close>.  It calls itself to send the control record of a huge message;
  the first argument bounds the depth of the calls, and \<open>None\<close> is a call that does not
  return: the bound is reached, or a wait never ends.
\<close>

fun private_isend ::
  "nat \<Rightarrow> rmi_config \<Rightarrow> bool list \<Rightarrow> bool list \<Rightarrow> sender \<Rightarrow> nat \<times> nat \<Rightarrow> nat \<Rightarrow> nat \<Rightarrow> rmi_handler \<Rightarrow>
     attrT \<Rightarrow> (rmi_error + sender \<times> send_event list) option" where
  "private_isend 0 cfg send_tests ack_tests st body nbyte dest func attr = None"
| "private_isend (Suc depth) cfg send_tests ack_tests st body nbyte dest func attr =
     (if nbyte > max_msg_len cfg then
        (case private_isend depth cfg send_tests ack_tests st (rmi_rank cfg, nbyte) (info_len cfg) dest
                Huge_msg_handler (ATTR_UNORDERED cfg) of
           None \<Rightarrow> None
         | Some (Inl e) \<Rightarrow> Some (Inl e)
         | Some (Inr (st1, ev1)) \<Rightarrow>
             (case wait_req send_tests of
                None \<Rightarrow> None
              | Some _ \<Rightarrow>
                  (case wait_req ack_tests of
                     None \<Rightarrow> None
                   | Some _ \<Rightarrow>
                       (let (st2, ev2) = send_locked cfg st1 body nbyte dest func attr RMI_HUGE_DAT_TAG
                        in Some (Inr (st2, Irecv_ack dest (sizeof_int cfg) # ev1 @ [Wait_send, Wait_ack] @ ev2))))))
      else if nbyte < HEADER_LEN cfg then Some (Inl (Buffer_too_small nbyte))
      else Some (Inr (send_locked cfg st body nbyte dest func attr RMI_TAG)))"


text \<open>The headers of the messages handed to \<open>Isend\<close> on the eager tag, in order.\<close>

fun sent_header :: "send_event \<Rightarrow> (rmi_handler \<times> attrT) option" where
  "sent_header (Isend dest nbyte func attr tg body) = (if tg = RMI_TAG then Some (func, attr) else None)"
| "sent_header _ = None"

definition sent_headers :: "send_event list \<Rightarrow> (rmi_handler \<times> attrT) list" where
  "sent_headers evs = List.map_filter sent_header evs"

definition events_of :: "(rmi_error + sender \<times> send_event list) option \<Rightarrow> send_event list" where
  "events_of r = (case r of Some (Inr (st, evs)) \<Rightarrow> evs | _ \<Rightarrow> [])"

text \<open>
  What the spec says of a sequence of ordered eager sends to one destination, starting at
  the count \<open>c\<close>: under the mutex each message is stamped with the count in the high 16
  bits of its attribute and sent on the RMI tag, and the count goes up by one.
\<close>

fun spec_ordered_sends ::
  "nat \<Rightarrow> counterT \<Rightarrow> ((nat \<times> nat) \<times> nat \<times> rmi_handler \<times> attrT) list \<Rightarrow> send_event list" where
  "spec_ordered_sends dest c [] = []"
| "spec_ordered_sends dest c ((body, nbyte, func, attr) # ms) =
     [Lock, Isend dest nbyte func (attr OR push_bit 16 (ucast c)) RMI_TAG body, Unlock]
       @ spec_ordered_sends dest (c + 1) ms"

subsection \<open>Receiving\<close>

text \<open>
  A receive buffer holds the header and the body of the message that arrived in it.  An
  arrival is what \<open>Testsome\<close> reports for one completed request (the index of the buffer,
  the source and the length) with the buffer's content.  \<open>qmsg\<close> is the entry of the
  out-of-order queue.
\<close>

record buffer =
  h_func :: rmi_handler
  h_attr :: attrT
  b_info :: "nat \<times> nat"

record arrival =
  ar_src :: nat
  ar_len :: nat
  ar_i :: nat
  ar_buf :: buffer

record qmsg =
  q_len :: nat
  q_func :: rmi_handler
  q_i :: nat
  q_src :: nat
  q_attr :: attrT
  q_count :: counterT

datatype recv_event =
    Invoke rmi_handler nat attrT nat nat
  | Post_recv nat nat "nat option" tag
  | Free nat
  | Memalign nat
  | Send_ack nat nat

text \<open>
  The state of the server: the receive counters, the out-of-order queue (the first
  \<open>n_in_q\<close> entries of \<open>q\<close>), the queue of pending huge messages, whether the spare slot
  \<open>recv_buf[nrecv_]\<close> holds a buffer, the contents of the buffers, the statistics, and the
  handler invocations and transport calls made so far, in order.  An invocation is
  recorded with the handler, the source, the attribute, the length and the buffer index.
\<close>

record rmi_state =
  recv_counters :: "nat \<Rightarrow> counterT"
  q :: "qmsg list"
  hugeq :: "(nat \<times> nat) list"
  huge_pending :: bool
  recv_buf :: "nat \<Rightarrow> buffer"
  nmsg_recv :: nat
  nbyte_recv :: nat
  trace :: "recv_event list"

type_synonym result = "rmi_error \<times> rmi_state + rmi_state"

definition then_do :: "result \<Rightarrow> (rmi_state \<Rightarrow> result) \<Rightarrow> result" where
  "then_do r f = (case r of Inl e \<Rightarrow> Inl e | Inr st \<Rightarrow> f st)"

definition final :: "result \<Rightarrow> rmi_state" where
  "final r = (case r of Inl (e, st) \<Rightarrow> st | Inr st \<Rightarrow> st)"

text \<open>
  \<open>RMI::post_pending_huge_msg\<close>.  \<open>alloc_ok n\<close> says whether \<open>posix_memalign\<close> succeeds
  for \<open>n\<close> bytes.
\<close>

definition post_pending_huge_msg :: "rmi_config \<Rightarrow> (nat \<Rightarrow> bool) \<Rightarrow> rmi_state \<Rightarrow> result" where
  "post_pending_huge_msg cfg alloc_ok st =
     (if huge_pending st then Inr st
      else (case hugeq st of
              [] \<Rightarrow> Inr st
            | (src, nbyte) # rest \<Rightarrow>
                (let st1 = st\<lparr>hugeq := rest\<rparr>
                 in if \<not> alloc_ok nbyte then Inl (Alloc_failed, st1)
                    else Inr (st1\<lparr>huge_pending := True,
                                  trace := trace st1 @
                                    [Memalign nbyte,
                                     Post_recv (nrecv cfg) nbyte (Some src) RMI_HUGE_DAT_TAG,
                                     Send_ack src (sizeof_int cfg)]\<rparr>))))"

text \<open>\<open>RMI::post_recv_buf\<close>.\<close>

definition post_recv_buf :: "rmi_config \<Rightarrow> (nat \<Rightarrow> bool) \<Rightarrow> nat \<Rightarrow> rmi_state \<Rightarrow> result" where
  "post_recv_buf cfg alloc_ok i st =
     (if i < nrecv cfg then
        Inr (st\<lparr>trace := trace st @ [Post_recv i (max_msg_len cfg) None RMI_TAG]\<rparr>)
      else if i = nrecv cfg then
        post_pending_huge_msg cfg alloc_ok
          (st\<lparr>huge_pending := False, trace := trace st @ [Free i]\<rparr>)
      else Inl (Post_recv_confusion i, st))"

text \<open>
  \<open>RMI::huge_msg_handler\<close>, and the call \<open>func(recv_buf[i], len)\<close> of a handler: the
  handler of the huge messages is the one above, any other handler is the user's and
  leaves the state of the server alone.
\<close>

definition huge_msg_handler :: "rmi_config \<Rightarrow> (nat \<Rightarrow> bool) \<Rightarrow> buffer \<Rightarrow> rmi_state \<Rightarrow> result" where
  "huge_msg_handler cfg alloc_ok buf st =
     (let src = fst (b_info buf); nbyte = snd (b_info buf)
      in post_pending_huge_msg cfg alloc_ok (st\<lparr>hugeq := hugeq st @ [(src, nbyte)]\<rparr>))"

definition invoke ::
  "rmi_config \<Rightarrow> (nat \<Rightarrow> bool) \<Rightarrow> rmi_handler \<Rightarrow> nat \<Rightarrow> attrT \<Rightarrow> nat \<Rightarrow> nat \<Rightarrow> rmi_state \<Rightarrow> result" where
  "invoke cfg alloc_ok func src attr len i st =
     (let st1 = st\<lparr>trace := trace st @ [Invoke func src attr len i]\<rparr>
      in case func of
           Huge_msg_handler \<Rightarrow> huge_msg_handler cfg alloc_ok (recv_buf st1 i) st1
         | User_handler h \<Rightarrow> Inr st1)"

text \<open>
  The body of the loop of \<open>RMI::run\<close> over the arrived messages, for one message: it is
  handled at once, or put in the queue.
\<close>

definition process_arrival :: "rmi_config \<Rightarrow> (nat \<Rightarrow> bool) \<Rightarrow> arrival \<Rightarrow> rmi_state \<Rightarrow> result" where
  "process_arrival cfg alloc_ok a st =
     (let src = ar_src a; len = ar_len a; i = ar_i a;
          st1 = st\<lparr>recv_buf := (recv_buf st)(i := ar_buf a),
                    nmsg_recv := nmsg_recv st + 1, nbyte_recv := nbyte_recv st + len\<rparr>;
          func = h_func (recv_buf st1 i);
          attr = h_attr (recv_buf st1 i);
          count = count_of attr
      in if \<not> is_ordered cfg attr \<or> count = recv_counters st1 src then
           (let st2 = (if is_ordered cfg attr
                       then st1\<lparr>recv_counters := (recv_counters st1)(src := recv_counters st1 src + 1)\<rparr>
                       else st1)
            in then_do (invoke cfg alloc_ok func src attr len i st2) (post_recv_buf cfg alloc_ok i))
         else
           (let n = length (q st1)
            in if n \<ge> maxq cfg then Inl (Queue_overflow n, st1)
               else Inr (st1\<lparr>q := q st1 @
                    [\<lparr>q_len = len, q_func = func, q_i = i, q_src = src, q_attr = attr,
                      q_count = count\<rparr>]\<rparr>)))"

fun process_arrivals :: "rmi_config \<Rightarrow> (nat \<Rightarrow> bool) \<Rightarrow> arrival list \<Rightarrow> rmi_state \<Rightarrow> result" where
  "process_arrivals cfg alloc_ok [] st = Inr st"
| "process_arrivals cfg alloc_ok (a # as) st =
     then_do (process_arrival cfg alloc_ok a st) (process_arrivals cfg alloc_ok as)"

text \<open>
  The pass over the sorted queue: a message whose count is the receive counter of its
  source is handled, any other is kept, in order, at the front of the queue.
\<close>

fun drain :: "rmi_config \<Rightarrow> (nat \<Rightarrow> bool) \<Rightarrow> qmsg list \<Rightarrow> qmsg list \<Rightarrow> rmi_state \<Rightarrow> result" where
  "drain cfg alloc_ok [] leftover st = Inr (st\<lparr>q := leftover\<rparr>)"
| "drain cfg alloc_ok (m # ms) leftover st =
     (let src = q_src m
      in if q_count m = recv_counters st src then
           then_do
             (then_do
                (invoke cfg alloc_ok (q_func m) src (q_attr m) (q_len m) (q_i m)
                   (st\<lparr>recv_counters := (recv_counters st)(src := recv_counters st src + 1)\<rparr>))
                (post_recv_buf cfg alloc_ok (q_i m)))
             (drain cfg alloc_ok ms leftover)
         else drain cfg alloc_ok ms (leftover @ [m]) st)"

text \<open>
  Modelled from the spec: \<open>operator<\<close> of \<open>qmsg\<close> is declared in the header
  \<open>world/worldrmi.h\<close>, which is not among the sources; the queue is sorted by ascending
  count.  The order \<open>std::sort\<close> gives to entries of equal count is not specified, and is
  the order of insertion here.
\<close>

abbreviation sort_queue :: "qmsg list \<Rightarrow> qmsg list" where
  "sort_queue \<equiv> sort_key q_count"

text \<open>
  One turn of the loop of \<open>RMI::run\<close> after \<open>Testsome\<close> has reported arrivals: the loop
  over the arrived messages, the sort of the queue, the pass over the queue, and
  \<open>post_pending_huge_msg\<close>.
\<close>

definition run_body :: "rmi_config \<Rightarrow> (nat \<Rightarrow> bool) \<Rightarrow> arrival list \<Rightarrow> rmi_state \<Rightarrow> result" where
  "run_body cfg alloc_ok arrived st =
     then_do
       (then_do (process_arrivals cfg alloc_ok arrived st)
          (\<lambda>st1. drain cfg alloc_ok (sort_queue (q st1)) [] st1))
       (post_pending_huge_msg cfg alloc_ok)"

text \<open>
  \<open>RMI::run\<close> over the successive results of \<open>Testsome\<close>: the messages that arrived, and
  the value of \<open>finished\<close> read when none did.  The thread has returned, has been ended by
  an exception, or is waiting for the next result.
\<close>

datatype run_status = Waiting | Returned | Raised rmi_error

fun run :: "rmi_config \<Rightarrow> (nat \<Rightarrow> bool) \<Rightarrow> (arrival list \<times> bool) list \<Rightarrow> rmi_state \<Rightarrow> run_status \<times> rmi_state" where
  "run cfg alloc_ok [] st = (Waiting, st)"
| "run cfg alloc_ok ((arrived, finished) # polls) st =
     (if arrived = [] then (if finished then (Returned, st) else run cfg alloc_ok polls st)
      else (case run_body cfg alloc_ok arrived st of
              Inl (e, st1) \<Rightarrow> (Raised e, st1)
            | Inr st1 \<Rightarrow> run cfg alloc_ok polls st1))"


subsection \<open>The order of the invocations\<close>










section \<open>Concrete inputs\<close>

text \<open>
  A tree in one dimension with \<open>k = 1\<close>: a root with coefficients and children, an interior
  node and a leaf at level 1, each with a tensor of two elements (the scaling element at
  index 0, the wavelet element at index 1).
\<close>

definition ex_tree :: FunctionImpl where
  "ex_tree =
     \<lparr>k = 1, ndim = 1, thresh = 1 / 100, truncate_mode = 0, bc = [(0, 0)], cell_min_width = 1,
      coeffs = [\<lparr>level = 0, translation = [0]\<rparr> \<mapsto> FunctionNode_of (Some \<lparr>dims = [2], elem = (\<lambda>i. 5)\<rparr>) True,
                \<lparr>level = 1, translation = [0]\<rparr> \<mapsto> FunctionNode_of (Some \<lparr>dims = [2], elem = (\<lambda>i. 7)\<rparr>) True,
                \<lparr>level = 1, translation = [1]\<rparr> \<mapsto> FunctionNode_of (Some \<lparr>dims = [2], elem = (\<lambda>i. 9)\<rparr>) False],
      nonstandard = True, compressed = True\<rparr>"

text \<open>
  Inputs for \<open>do_apply\<close>: a tree with the given boundary conditions, threshold \<open>3/100\<close>
  and truncation mode 0; an operator with the given displacement list and norm, whose
  application returns the source block; the neighbour on a periodic domain; and, for
  \<open>normf\<close>, the absolute value of the element at index 0 (the norm of a tensor of one
  element).
\<close>

definition ex_impl :: "(int \<times> int) list \<Rightarrow> FunctionImpl" where
  "ex_impl bcs =
     \<lparr>k = 1, ndim = length bcs, thresh = 3 / 100, truncate_mode = 0, bc = bcs,
      cell_min_width = 1, coeffs = Map.empty,
      nonstandard = False, compressed = False\<rparr>"

definition ex_op :: "key list \<Rightarrow> (key \<Rightarrow> real) \<Rightarrow> convolution_op" where
  "ex_op ds nrm = \<lparr>get_disp = (\<lambda>n. ds), op_norm = (\<lambda>n. nrm), op_apply = (\<lambda>ky d c tol. c)\<rparr>"

definition ex_nbr :: "key \<Rightarrow> key \<Rightarrow> key option" where
  "ex_nbr ky d =
     Some \<lparr>level = level ky,
           translation = map2 (\<lambda>a b. (a + b) mod 2 ^ level ky) (translation ky) (translation d)\<rparr>"

definition ex_normf :: "tensor \<Rightarrow> real" where
  "ex_normf t = \<bar>elem t [0]\<bar>"

definition ex_disp :: "int list \<Rightarrow> key" where
  "ex_disp ls = \<lparr>level = 1, translation = ls\<rparr>"


subsection \<open>The message layer\<close>

text \<open>
  A configuration of the message layer with three receive buffers, a server that has
  received nothing, a sender that has sent nothing, and a message of 64 bytes as it
  arrives in a buffer.
\<close>

definition ex_cfg :: rmi_config where
  "ex_cfg = \<lparr>ATTR_UNORDERED = 0, ATTR_ORDERED = 1, HEADER_LEN = 64, max_msg_len = 1024,
             nrecv = 3, maxq = 4, rmi_rank = 7, sizeof_size_t = 8, sizeof_int = 4\<rparr>"

definition ex_state :: "(nat \<Rightarrow> counterT) \<Rightarrow> rmi_state" where
  "ex_state counters =
     \<lparr>recv_counters = counters, q = [], hugeq = [], huge_pending = False,
      recv_buf = (\<lambda>i. \<lparr>h_func = User_handler 0, h_attr = 0, b_info = (0, 0)\<rparr>),
      nmsg_recv = 0, nbyte_recv = 0, trace = []\<rparr>"

definition ex_sender :: sender where
  "ex_sender = \<lparr>send_counters = (\<lambda>d. 0), nmsg_sent = 0, nbyte_sent = 0\<rparr>"

definition ex_arrival :: "nat \<Rightarrow> nat \<Rightarrow> nat \<Rightarrow> attrT \<Rightarrow> arrival" where
  "ex_arrival src i h attr =
     \<lparr>ar_src = src, ar_len = 64, ar_i = i,
      ar_buf = \<lparr>h_func = User_handler h, h_attr = attr, b_info = (0, 0)\<rparr>\<rparr>"



text \<open>
  The arrival of the control record of a huge message of 5000 bytes from process 1, and
  four ordered messages of process 1 in the queue of a server whose counter for process 1
  is 0.
\<close>

definition ex_huge_arrival :: arrival where
  "ex_huge_arrival =
     \<lparr>ar_src = 1, ar_len = 80, ar_i = 0,
      ar_buf = \<lparr>h_func = Huge_msg_handler, h_attr = 0, b_info = (1, 5000)\<rparr>\<rparr>"

definition ex_parked :: "nat \<Rightarrow> qmsg" where
  "ex_parked n =
     \<lparr>q_len = 64, q_func = User_handler n, q_i = n, q_src = 1,
      q_attr = 1 OR push_bit 16 (of_nat n), q_count = of_nat n\<rparr>"

definition ex_full :: rmi_state where
  "ex_full = (ex_state (\<lambda>s. 0))\<lparr>q := [ex_parked 1, ex_parked 2, ex_parked 3, ex_parked 4]\<rparr>"

section \<open>Theorems\<close>

subsection \<open>Truncation threshold\<close>

text \<open>
  Claim C3.  For every key at level \<open>n\<close> and every tolerance \<open>tol\<close>, \<open>truncate_tol\<close> returns
  \<open>tol\<close> in mode 0, \<open>tol * min(1, 2^(-n) * L)\<close> in mode 1 and \<open>tol * min(1, 4^(-n) * L^2)\<close>
  in mode 2, where \<open>L\<close> is the minimum cell width; for any other mode it raises the
  exception instead of returning.
\<close>

theorem truncate_tol_policy:
  "(truncate_mode f = 0 \<longrightarrow> truncate_tol f tol ky = Inr tol) \<and>
   (truncate_mode f = 1 \<longrightarrow>
      truncate_tol f tol ky = Inr (tol * min 1 (cell_min_width f / 2 ^ level ky))) \<and>
   (truncate_mode f = 2 \<longrightarrow>
      truncate_tol f tol ky = Inr (tol * min 1 ((cell_min_width f)\<^sup>2 / 4 ^ level ky))) \<and>
   (truncate_mode f \<notin> {0, 1, 2} \<longrightarrow>
      truncate_tol f tol ky = Inl (TruncateModeInvalid (truncate_mode f)))"
  by (simp add: truncate_tol_def Let_def power_divide power2_eq_square)

theorem truncate_tol_policy_witness:
  "truncate_tol \<lparr>k = 2, ndim = 1, thresh = 1 / 100, truncate_mode = 0, bc = [(0, 0)],
                 cell_min_width = 1, coeffs = Map.empty,
      nonstandard = False, compressed = False\<rparr> (1 / 100)
                \<lparr>level = 3, translation = [5]\<rparr> = Inr (1 / 100) \<and>
   truncate_tol \<lparr>k = 2, ndim = 1, thresh = 1 / 100, truncate_mode = 1, bc = [(0, 0)],
                 cell_min_width = 2, coeffs = Map.empty,
      nonstandard = False, compressed = False\<rparr> (1 / 100)
                \<lparr>level = 3, translation = [5]\<rparr> = Inr (1 / 400) \<and>
   truncate_tol \<lparr>k = 2, ndim = 1, thresh = 1 / 100, truncate_mode = 2, bc = [(0, 0)],
                 cell_min_width = 2, coeffs = Map.empty,
      nonstandard = False, compressed = False\<rparr> (1 / 100)
                \<lparr>level = 3, translation = [5]\<rparr> = Inr (1 / 1600) \<and>
   truncate_tol \<lparr>k = 2, ndim = 1, thresh = 1 / 100, truncate_mode = 3, bc = [(0, 0)],
                 cell_min_width = 2, coeffs = Map.empty,
      nonstandard = False, compressed = False\<rparr> (1 / 100)
                \<lparr>level = 3, translation = [5]\<rparr> = Inl (TruncateModeInvalid 3)"
  using truncate_tol_policy [of "\<lparr>k = 2, ndim = 1, thresh = 1 / 100, truncate_mode = 0,
          bc = [(0, 0)], cell_min_width = 1, coeffs = Map.empty,
      nonstandard = False, compressed = False\<rparr>" "1 / 100"
          "\<lparr>level = 3, translation = [5]\<rparr>"]
        truncate_tol_policy [of "\<lparr>k = 2, ndim = 1, thresh = 1 / 100, truncate_mode = 1,
          bc = [(0, 0)], cell_min_width = 2, coeffs = Map.empty,
      nonstandard = False, compressed = False\<rparr>" "1 / 100"
          "\<lparr>level = 3, translation = [5]\<rparr>"]
        truncate_tol_policy [of "\<lparr>k = 2, ndim = 1, thresh = 1 / 100, truncate_mode = 2,
          bc = [(0, 0)], cell_min_width = 2, coeffs = Map.empty,
      nonstandard = False, compressed = False\<rparr>" "1 / 100"
          "\<lparr>level = 3, translation = [5]\<rparr>"]
        truncate_tol_policy [of "\<lparr>k = 2, ndim = 1, thresh = 1 / 100, truncate_mode = 3,
          bc = [(0, 0)], cell_min_width = 2, coeffs = Map.empty,
      nonstandard = False, compressed = False\<rparr>" "1 / 100"
          "\<lparr>level = 3, translation = [5]\<rparr>"]
  by simp

subsection \<open>Merging two nodes\<close>

lemma gaxpy_flag_upd:
  "(if has_children other then this\<lparr>n_has_children := True\<rparr> else this) =
   this\<lparr>n_has_children := has_children this \<or> has_children other\<rparr>"
  by (simp add: has_children_def)

lemma gaxpy_both:
  assumes "has_coeff this" "has_coeff other" "n_coeffs this = Some c" "n_coeffs other = Some oc"
       "dims c = dims oc"
  shows "gaxpy_inplace alpha this other beta =
        Inr (this\<lparr>n_has_children := has_children this \<or> has_children other,
                  n_coeffs := Some (c\<lparr>elem := (\<lambda>i. alpha * elem c i + beta * elem oc i)\<rparr>)\<rparr>)"
    using assms unfolding gaxpy_inplace_def gaxpy_flag_upd
    by (simp add: has_coeff_def t_gaxpy_def)

lemma gaxpy_only_this:
  assumes "has_coeff this" "\<not> has_coeff other" "n_coeffs this = Some c"
  shows "gaxpy_inplace alpha this other beta =
        Inr (this\<lparr>n_has_children := has_children this \<or> has_children other,
                  n_coeffs := Some (c\<lparr>elem := (\<lambda>i. alpha * elem c i)\<rparr>)\<rparr>)"
    using assms unfolding gaxpy_inplace_def gaxpy_flag_upd
    by (simp add: has_coeff_def t_scale_def mult.commute split: option.splits)

lemma gaxpy_only_other:
  assumes "\<not> has_coeff this" "has_coeff other" "n_coeffs other = Some oc"
  shows "gaxpy_inplace alpha this other beta =
        Inr (this\<lparr>n_has_children := has_children this \<or> has_children other,
                  n_coeffs := Some (oc\<lparr>elem := (\<lambda>i. beta * elem oc i)\<rparr>)\<rparr>)"
    using assms unfolding gaxpy_inplace_def gaxpy_flag_upd
    by (simp add: has_coeff_def t_scale_def mult.commute split: option.splits)

lemma gaxpy_neither:
  assumes "\<not> has_coeff this" "\<not> has_coeff other"
  shows "gaxpy_inplace alpha this other beta =
        Inr (this\<lparr>n_has_children := has_children this \<or> has_children other\<rparr>)"
    using assms unfolding gaxpy_inplace_def gaxpy_flag_upd
    by (simp add: has_coeff_def split: option.splits)


lemma gaxpy_flag_case:
  "(case gaxpy_inplace alpha this other beta of
      Inl e \<Rightarrow> True
    | Inr r \<Rightarrow> has_children r = (has_children this \<or> has_children other))"
  unfolding gaxpy_inplace_def gaxpy_flag_upd Let_def
  by (simp add: has_children_def t_gaxpy_def split: option.split sum.split)

lemma gaxpy_flag:
  assumes "gaxpy_inplace alpha this other beta = Inr r"
  shows "has_children r = (has_children this \<or> has_children other)"
  using gaxpy_flag_case [where alpha = alpha and this = this and other = other and beta = beta] assms
  by simp

text \<open>
  Claim C6.  \<open>gaxpy_inplace(alpha, other, beta)\<close> sets the children flag to the
  disjunction of the two flags and merges the coefficients as
  \<open>this <- alpha*this + beta*other\<close>, a missing tensor counting as zero: both present
  (and of one shape), element-wise combination; only \<open>this\<close>, scaling by \<open>alpha\<close>; only
  \<open>other\<close>, \<open>beta*other\<close>; neither, \<open>this\<close> stays without coefficients.
\<close>

theorem gaxpy_inplace_merge:
  "(has_coeff this \<and> has_coeff other \<and> n_coeffs this = Some c \<and> n_coeffs other = Some oc \<and>
      dims c = dims oc \<longrightarrow>
      gaxpy_inplace alpha this other beta =
        Inr (this\<lparr>n_has_children := has_children this \<or> has_children other,
                  n_coeffs := Some (c\<lparr>elem := (\<lambda>i. alpha * elem c i + beta * elem oc i)\<rparr>)\<rparr>)) \<and>
   (has_coeff this \<and> \<not> has_coeff other \<and> n_coeffs this = Some c \<longrightarrow>
      gaxpy_inplace alpha this other beta =
        Inr (this\<lparr>n_has_children := has_children this \<or> has_children other,
                  n_coeffs := Some (c\<lparr>elem := (\<lambda>i. alpha * elem c i)\<rparr>)\<rparr>)) \<and>
   (\<not> has_coeff this \<and> has_coeff other \<and> n_coeffs other = Some oc \<longrightarrow>
      gaxpy_inplace alpha this other beta =
        Inr (this\<lparr>n_has_children := has_children this \<or> has_children other,
                  n_coeffs := Some (oc\<lparr>elem := (\<lambda>i. beta * elem oc i)\<rparr>)\<rparr>)) \<and>
   (\<not> has_coeff this \<and> \<not> has_coeff other \<longrightarrow>
      gaxpy_inplace alpha this other beta =
        Inr (this\<lparr>n_has_children := has_children this \<or> has_children other\<rparr>) \<and>
      \<not> has_coeff (this\<lparr>n_has_children := has_children this \<or> has_children other\<rparr>)) \<and>
   (\<forall>r. gaxpy_inplace alpha this other beta = Inr r \<longrightarrow>
      has_children r = (has_children this \<or> has_children other))"
proof (intro conjI impI allI)
  show "gaxpy_inplace alpha this other beta =
        Inr (this\<lparr>n_has_children := has_children this \<or> has_children other,
                  n_coeffs := Some (c\<lparr>elem := (\<lambda>i. alpha * elem c i + beta * elem oc i)\<rparr>)\<rparr>)"
    if "has_coeff this \<and> has_coeff other \<and> n_coeffs this = Some c \<and> n_coeffs other = Some oc \<and>
      dims c = dims oc"
    using that by (intro gaxpy_both) simp_all
  show "gaxpy_inplace alpha this other beta =
        Inr (this\<lparr>n_has_children := has_children this \<or> has_children other,
                  n_coeffs := Some (c\<lparr>elem := (\<lambda>i. alpha * elem c i)\<rparr>)\<rparr>)"
    if "has_coeff this \<and> \<not> has_coeff other \<and> n_coeffs this = Some c"
    using that by (intro gaxpy_only_this) simp_all
  show "gaxpy_inplace alpha this other beta =
        Inr (this\<lparr>n_has_children := has_children this \<or> has_children other,
                  n_coeffs := Some (oc\<lparr>elem := (\<lambda>i. beta * elem oc i)\<rparr>)\<rparr>)"
    if "\<not> has_coeff this \<and> has_coeff other \<and> n_coeffs other = Some oc"
    using that by (intro gaxpy_only_other) simp_all
  show "gaxpy_inplace alpha this other beta =
        Inr (this\<lparr>n_has_children := has_children this \<or> has_children other\<rparr>)"
    if "\<not> has_coeff this \<and> \<not> has_coeff other"
    using that by (intro gaxpy_neither) simp_all
  show "\<not> has_coeff (this\<lparr>n_has_children := has_children this \<or> has_children other\<rparr>)"
    if "\<not> has_coeff this \<and> \<not> has_coeff other"
    using that by (simp add: has_coeff_def)
  show "has_children r = (has_children this \<or> has_children other)"
    if "gaxpy_inplace alpha this other beta = Inr r" for r
    using that by (rule gaxpy_flag)
qed

theorem gaxpy_inplace_merge_witness:
  "gaxpy_inplace 2 (FunctionNode_of (Some \<lparr>dims = [2], elem = (\<lambda>i. 1)\<rparr>) False)
                   (FunctionNode_of (Some \<lparr>dims = [2], elem = (\<lambda>i. 3)\<rparr>) True) 5 =
     Inr \<lparr>n_coeffs = Some \<lparr>dims = [2], elem = (\<lambda>i. 17)\<rparr>, n_norm_tree = norm_tree_unset,
          n_has_children = True\<rparr> \<and>
   gaxpy_inplace 2 (FunctionNode_of (Some \<lparr>dims = [2], elem = (\<lambda>i. 1)\<rparr>) False)
                   (FunctionNode_of None True) 5 =
     Inr \<lparr>n_coeffs = Some \<lparr>dims = [2], elem = (\<lambda>i. 2)\<rparr>, n_norm_tree = norm_tree_unset,
          n_has_children = True\<rparr> \<and>
   gaxpy_inplace 2 (FunctionNode_of None False)
                   (FunctionNode_of (Some \<lparr>dims = [2], elem = (\<lambda>i. 3)\<rparr>) False) 5 =
     Inr \<lparr>n_coeffs = Some \<lparr>dims = [2], elem = (\<lambda>i. 15)\<rparr>, n_norm_tree = norm_tree_unset,
          n_has_children = False\<rparr> \<and>
   gaxpy_inplace 2 (FunctionNode_of None False) (FunctionNode_of None True) 5 =
     Inr \<lparr>n_coeffs = None, n_norm_tree = norm_tree_unset, n_has_children = True\<rparr>"
proof -
  let ?a = "\<lparr>dims = [2], elem = (\<lambda>i. 1)\<rparr>"
  let ?b = "\<lparr>dims = [2], elem = (\<lambda>i. 3)\<rparr>"
  have hs: "has_coeff (FunctionNode_of (Some ?a) False)" "has_coeff (FunctionNode_of (Some ?b) True)"
    "has_coeff (FunctionNode_of (Some ?b) False)"
    "\<not> has_coeff (FunctionNode_of None True)" "\<not> has_coeff (FunctionNode_of None False)"
    by (simp_all add: has_coeff_def FunctionNode_of_def tsize_def)
  have cs: "has_children (FunctionNode_of c True)" "\<not> has_children (FunctionNode_of c False)" for c
    by (simp_all add: has_children_def FunctionNode_of_def)
  note t = gaxpy_inplace_merge
  have 1: "gaxpy_inplace 2 (FunctionNode_of (Some ?a) False) (FunctionNode_of (Some ?b) True) 5 =
     Inr \<lparr>n_coeffs = Some \<lparr>dims = [2], elem = (\<lambda>i. 17)\<rparr>, n_norm_tree = norm_tree_unset,
          n_has_children = True\<rparr>"
    using t [where this = "FunctionNode_of (Some ?a) False" and other = "FunctionNode_of (Some ?b) True"
               and c = ?a and oc = ?b and alpha = 2 and beta = 5, THEN conjunct1] hs cs
    by (simp add: FunctionNode_of_def)
  have 2: "gaxpy_inplace 2 (FunctionNode_of (Some ?a) False) (FunctionNode_of None True) 5 =
     Inr \<lparr>n_coeffs = Some \<lparr>dims = [2], elem = (\<lambda>i. 2)\<rparr>, n_norm_tree = norm_tree_unset,
          n_has_children = True\<rparr>"
    using t [where this = "FunctionNode_of (Some ?a) False" and other = "FunctionNode_of None True"
               and c = ?a and oc = ?b and alpha = 2 and beta = 5, THEN conjunct2, THEN conjunct1] hs cs
    by (simp add: FunctionNode_of_def)
  have 3: "gaxpy_inplace 2 (FunctionNode_of None False) (FunctionNode_of (Some ?b) False) 5 =
     Inr \<lparr>n_coeffs = Some \<lparr>dims = [2], elem = (\<lambda>i. 15)\<rparr>, n_norm_tree = norm_tree_unset,
          n_has_children = False\<rparr>"
    using t [where this = "FunctionNode_of None False" and other = "FunctionNode_of (Some ?b) False"
               and c = ?a and oc = ?b and alpha = 2 and beta = 5,
               THEN conjunct2, THEN conjunct2, THEN conjunct1] hs cs
    by (simp add: FunctionNode_of_def)
  have 4: "gaxpy_inplace 2 (FunctionNode_of None False) (FunctionNode_of None True) 5 =
     Inr \<lparr>n_coeffs = None, n_norm_tree = norm_tree_unset, n_has_children = True\<rparr>"
    using t [where this = "FunctionNode_of None False" and other = "FunctionNode_of None True"
               and c = ?a and oc = ?b and alpha = 2 and beta = 5,
               THEN conjunct2, THEN conjunct2, THEN conjunct2, THEN conjunct1] hs cs
    by (simp add: FunctionNode_of_def)
  show ?thesis using 1 2 3 4 by blast
qed

subsection \<open>Truncation with a non-positive tolerance\<close>

text \<open>
  Claim C10.  For every \<open>tol \<le> 0\<close>, \<open>truncate(tol, fence)\<close> truncates with the stored
  threshold \<open>thresh\<close> in place of \<open>tol\<close>: it makes the calls \<open>truncate(thresh, fence)\<close>
  makes, and the member \<open>thresh\<close> is left as it was.
\<close>

theorem truncate_nonpositive_tol:
  "tol \<le> 0 \<Longrightarrow>
     FunctionImpl_truncate f rank owner tol fence = FunctionImpl_truncate f rank owner (thresh f) fence \<and>
     snd (FunctionImpl_truncate f rank owner tol fence) =
       (if rank = owner (key0 (ndim f)) then [Truncate_spawn (key0 (ndim f)) (thresh f)] else [])
       @ (if fence then [Fence] else []) \<and>
     thresh (fst (FunctionImpl_truncate f rank owner tol fence)) = thresh f"
  by (simp add: FunctionImpl_truncate_def)

theorem truncate_nonpositive_tol_witness:
  "(- 1 :: real) \<le> 0 \<and>
   FunctionImpl_truncate \<lparr>k = 2, ndim = 1, thresh = 1 / 100, truncate_mode = 0, bc = [(0, 0)],
             cell_min_width = 1, coeffs = Map.empty,
      nonstandard = False, compressed = False\<rparr> 0 (\<lambda>ky. 0) (- 1) True =
   FunctionImpl_truncate \<lparr>k = 2, ndim = 1, thresh = 1 / 100, truncate_mode = 0, bc = [(0, 0)],
             cell_min_width = 1, coeffs = Map.empty,
      nonstandard = False, compressed = False\<rparr> 0 (\<lambda>ky. 0) (1 / 100) True \<and>
   snd (FunctionImpl_truncate \<lparr>k = 2, ndim = 1, thresh = 1 / 100, truncate_mode = 0, bc = [(0, 0)],
             cell_min_width = 1, coeffs = Map.empty,
      nonstandard = False, compressed = False\<rparr> 0 (\<lambda>ky. 0) (- 1) True) =
     [Truncate_spawn \<lparr>level = 0, translation = [0]\<rparr> (1 / 100), Fence]"
proof -
  have h: "(- 1 :: real) \<le> 0" by simp
  note t = truncate_nonpositive_tol [OF h, where f = "\<lparr>k = 2, ndim = 1, thresh = 1 / 100,
          truncate_mode = 0, bc = [(0, 0)], cell_min_width = 1, coeffs = Map.empty,
      nonstandard = False, compressed = False\<rparr>"
          and rank = 0 and owner = "\<lambda>ky. 0" and fence = True]
  have a: "FunctionImpl_truncate \<lparr>k = 2, ndim = 1, thresh = 1 / 100, truncate_mode = 0, bc = [(0, 0)],
             cell_min_width = 1, coeffs = Map.empty,
      nonstandard = False, compressed = False\<rparr> 0 (\<lambda>ky. 0) (- 1) True =
   FunctionImpl_truncate \<lparr>k = 2, ndim = 1, thresh = 1 / 100, truncate_mode = 0, bc = [(0, 0)],
             cell_min_width = 1, coeffs = Map.empty,
      nonstandard = False, compressed = False\<rparr> 0 (\<lambda>ky. 0) (1 / 100) True"
    using t [THEN conjunct1] by simp
  have b: "snd (FunctionImpl_truncate \<lparr>k = 2, ndim = 1, thresh = 1 / 100, truncate_mode = 0, bc = [(0, 0)],
             cell_min_width = 1, coeffs = Map.empty,
      nonstandard = False, compressed = False\<rparr> 0 (\<lambda>ky. 0) (- 1) True) =
     [Truncate_spawn \<lparr>level = 0, translation = [0]\<rparr> (1 / 100), Fence]"
    using t [THEN conjunct2, THEN conjunct1] by (simp add: key0_def)
  show ?thesis using h a b by blast
qed

subsection \<open>Non-standard to standard form\<close>

lemma zero_s0_elem:
  "elem (zero_s0 kk t) idx = (if in_s0 kk idx then 0 else elem t idx)"
  "dims (zero_s0 kk t) = dims t"
  by (simp_all add: zero_s0_def)

lemma standard_coeffs:
  "coeffs (fst (standard f fence)) ky = map_option (standard_node (k f) ky) (coeffs f ky)"
  by (simp add: standard_def)

text \<open>
  Claim C7, as amended.  \<open>standard()\<close> walks every node, and for every node below the
  root (level \<open>> 0\<close>) with coefficients: if the node has children the scaling sub-block
  \<open>s0\<close> of its coefficients is set to zero, the rest of the tensor staying as it was; if
  the node is a leaf the coefficient tensor is deleted.  The root node, the nodes without
  coefficients and every other member of the tree are left unchanged, and no node is
  added or removed.
\<close>

theorem standard_effect:
  "(coeffs f ky = Some n \<and> 0 < level ky \<and> has_coeff n \<and> has_children n \<and> n_coeffs n = Some c \<longrightarrow>
      (\<exists>c'. coeffs (fst (standard f fence)) ky = Some (n\<lparr>n_coeffs := Some c'\<rparr>) \<and>
            dims c' = dims c \<and>
            (\<forall>idx. elem c' idx = (if in_s0 (k f) idx then 0 else elem c idx)))) \<and>
   (coeffs f ky = Some n \<and> 0 < level ky \<and> has_coeff n \<and> \<not> has_children n \<longrightarrow>
      coeffs (fst (standard f fence)) ky = Some (n\<lparr>n_coeffs := None\<rparr>) \<and>
      \<not> has_coeff (n\<lparr>n_coeffs := None\<rparr>)) \<and>
   (coeffs f ky = Some n \<and> (level ky = 0 \<or> \<not> has_coeff n) \<longrightarrow>
      coeffs (fst (standard f fence)) ky = Some n) \<and>
   (coeffs f ky = None \<longrightarrow> coeffs (fst (standard f fence)) ky = None) \<and>
   fst (standard f fence) = f\<lparr>coeffs := coeffs (fst (standard f fence))\<rparr>"
proof (intro conjI impI)
  assume a: "coeffs f ky = Some n \<and> 0 < level ky \<and> has_coeff n \<and> has_children n \<and> n_coeffs n = Some c"
  then have "coeffs (fst (standard f fence)) ky = Some (n\<lparr>n_coeffs := Some (zero_s0 (k f) c)\<rparr>)"
    by (simp add: standard_coeffs standard_node_def)
  then show "\<exists>c'. coeffs (fst (standard f fence)) ky = Some (n\<lparr>n_coeffs := Some c'\<rparr>) \<and>
            dims c' = dims c \<and>
            (\<forall>idx. elem c' idx = (if in_s0 (k f) idx then 0 else elem c idx))"
    by (intro exI [of _ "zero_s0 (k f) c"]) (simp add: zero_s0_elem)
next
  assume a: "coeffs f ky = Some n \<and> 0 < level ky \<and> has_coeff n \<and> \<not> has_children n"
  then show "coeffs (fst (standard f fence)) ky = Some (n\<lparr>n_coeffs := None\<rparr>)"
    by (simp add: standard_coeffs standard_node_def clear_coeff_def)
  show "\<not> has_coeff (n\<lparr>n_coeffs := None\<rparr>)"
    by (simp add: has_coeff_def)
next
  assume "coeffs f ky = Some n \<and> (level ky = 0 \<or> \<not> has_coeff n)"
  then show "coeffs (fst (standard f fence)) ky = Some n"
    by (auto simp: standard_coeffs standard_node_def)
next
  assume "coeffs f ky = None"
  then show "coeffs (fst (standard f fence)) ky = None"
    by (simp add: standard_coeffs)
next
  show "fst (standard f fence) = f\<lparr>coeffs := coeffs (fst (standard f fence))\<rparr>"
    by (simp add: standard_def)
qed


theorem standard_effect_witness:
  "(\<exists>c'. coeffs (fst (standard ex_tree True)) \<lparr>level = 1, translation = [0]\<rparr> =
           Some ((FunctionNode_of (Some \<lparr>dims = [2], elem = (\<lambda>i. 7)\<rparr>) True)\<lparr>n_coeffs := Some c'\<rparr>) \<and>
         dims c' = [2] \<and> elem c' [0] = 0 \<and> elem c' [1] = 7) \<and>
   coeffs (fst (standard ex_tree True)) \<lparr>level = 1, translation = [1]\<rparr> =
     Some (FunctionNode_of None False) \<and>
   coeffs (fst (standard ex_tree True)) \<lparr>level = 0, translation = [0]\<rparr> =
     Some (FunctionNode_of (Some \<lparr>dims = [2], elem = (\<lambda>i. 5)\<rparr>) True) \<and>
   coeffs (fst (standard ex_tree True)) \<lparr>level = 2, translation = [0]\<rparr> = None"
proof -
  let ?F = "ex_tree"
  let ?n0 = "FunctionNode_of (Some \<lparr>dims = [2], elem = (\<lambda>i. 5)\<rparr>) True"
  let ?n1 = "FunctionNode_of (Some \<lparr>dims = [2], elem = (\<lambda>i. 7)\<rparr>) True"
  let ?n2 = "FunctionNode_of (Some \<lparr>dims = [2], elem = (\<lambda>i. 9)\<rparr>) False"
  have hc: "has_coeff ?n0" "has_coeff ?n1" "has_coeff ?n2"
    by (simp_all add: has_coeff_def FunctionNode_of_def tsize_def)
  have ch: "has_children ?n0" "has_children ?n1" "\<not> has_children ?n2"
    by (simp_all add: has_children_def FunctionNode_of_def)
  have s0: "in_s0 1 [0]" "\<not> in_s0 1 [1]"
    by (simp_all add: in_s0_def)
  have 1: "\<exists>c'. coeffs (fst (standard ?F True)) \<lparr>level = 1, translation = [0]\<rparr> =
           Some (?n1\<lparr>n_coeffs := Some c'\<rparr>) \<and>
         dims c' = [2] \<and> elem c' [0] = 0 \<and> elem c' [1] = 7"
    using standard_effect [where f = ?F and ky = "\<lparr>level = 1, translation = [0]\<rparr>" and n = ?n1
        and c = "\<lparr>dims = [2], elem = (\<lambda>i. 7)\<rparr>" and fence = True, THEN conjunct1] hc ch s0
    by (auto simp: FunctionNode_of_def ex_tree_def)
  have 2: "coeffs (fst (standard ?F True)) \<lparr>level = 1, translation = [1]\<rparr> =
     Some (FunctionNode_of None False)"
    using standard_effect [where f = ?F and ky = "\<lparr>level = 1, translation = [1]\<rparr>" and n = ?n2
        and c = "\<lparr>dims = [2], elem = (\<lambda>i. 9)\<rparr>" and fence = True,
        THEN conjunct2, THEN conjunct1] hc ch
    by (simp add: FunctionNode_of_def ex_tree_def)
  have 3: "coeffs (fst (standard ?F True)) \<lparr>level = 0, translation = [0]\<rparr> = Some ?n0"
    using standard_effect [where f = ?F and ky = "\<lparr>level = 0, translation = [0]\<rparr>" and n = ?n0
        and c = "\<lparr>dims = [2], elem = (\<lambda>i. 5)\<rparr>" and fence = True,
        THEN conjunct2, THEN conjunct2, THEN conjunct1]
    by (simp add: ex_tree_def)
  have 4: "coeffs (fst (standard ?F True)) \<lparr>level = 2, translation = [0]\<rparr> = None"
    using standard_effect [where f = ?F and ky = "\<lparr>level = 2, translation = [0]\<rparr>" and n = ?n0
        and c = "\<lparr>dims = [2], elem = (\<lambda>i. 5)\<rparr>" and fence = True,
        THEN conjunct2, THEN conjunct2, THEN conjunct2, THEN conjunct1]
    by (simp add: ex_tree_def)
  show ?thesis using 1 2 3 4 by blast
qed

text \<open>
  The claim as stated, for every node with coefficients, fails at the root: a root with
  children and coefficients keeps its scaling sub-block.
\<close>

theorem standard_root_counterexample:
  "coeffs ex_tree \<lparr>level = 0, translation = [0]\<rparr> =
     Some (FunctionNode_of (Some \<lparr>dims = [2], elem = (\<lambda>i. 5)\<rparr>) True) \<and>
   has_coeff (FunctionNode_of (Some \<lparr>dims = [2], elem = (\<lambda>i. 5)\<rparr>) True) \<and>
   has_children (FunctionNode_of (Some \<lparr>dims = [2], elem = (\<lambda>i. 5)\<rparr>) True) \<and>
   in_s0 (k ex_tree) [0] \<and>
   (\<exists>c. coeffs (fst (standard ex_tree True)) \<lparr>level = 0, translation = [0]\<rparr> =
          Some (FunctionNode_of (Some c) True) \<and> elem c [0] = 5)"
  by (simp add: standard_def standard_node_def has_coeff_def has_children_def
      FunctionNode_of_def tsize_def in_s0_def ex_tree_def)

subsection \<open>Screening in the operator application\<close>

lemma periodic_doit_total:
  "lmax_of n = Some m \<Longrightarrow> \<exists>b. periodic_doit n bs ls = Inr b"
  by (induction n bs ls rule: periodic_doit.induct) auto

lemma do_apply_step_total:
  assumes "truncate_tol f (thresh f) ky = Inr tol" "lmax_of (level ky) = Some m"
  shows "\<exists>s. do_apply_step f nbr op ky cnorm d = Inr s"
proof -
  obtain b where "periodic_doit (level ky) (bc f) (translation d) = Inr b"
    using periodic_doit_total [OF assms(2)] by blast
  then show ?thesis
    using assms(1) by (simp add: do_apply_step_def Let_def split: option.split)
qed

lemma do_apply_loop_total:
  assumes "truncate_tol f (thresh f) ky = Inr tol" "lmax_of (level ky) = Some m"
  shows "\<exists>ts. do_apply_loop f nbr op ky cnorm ds = Inr ts"
proof (induction ds)
  case Nil
  show ?case by simp
next
  case (Cons d ds)
  obtain s where s: "do_apply_step f nbr op ky cnorm d = Inr s"
    using do_apply_step_total [OF assms] by blast
  from Cons obtain ts where "do_apply_loop f nbr op ky cnorm ds = Inr ts" by blast
  with s show ?case by (cases s) simp_all
qed

lemma do_apply_loop_scheduled:
  "do_apply_loop f nbr op ky cnorm ds = Inr ts \<Longrightarrow> a \<in> set ts \<Longrightarrow>
     \<exists>d \<in> set ds. do_apply_step f nbr op ky cnorm d = Inr (Schedule a)"
proof (induction ds arbitrary: ts)
  case Nil
  then show ?case by simp
next
  case (Cons d ds)
  show ?case
  proof (cases "do_apply_step f nbr op ky cnorm d")
    case (Inl e)
    with Cons.prems show ?thesis by simp
  next
    case (Inr s)
    show ?thesis
    proof (cases s)
      case Break
      with Inr Cons.prems show ?thesis by simp
    next
      case Skip
      with Inr Cons.prems have "do_apply_loop f nbr op ky cnorm ds = Inr ts" by simp
      from Cons.IH [OF this Cons.prems(2)] show ?thesis by auto
    next
      case (Schedule b)
      with Inr Cons.prems obtain ts' where
        ts': "do_apply_loop f nbr op ky cnorm ds = Inr ts'" "ts = b # ts'"
        by (auto split: sum.splits)
      show ?thesis
      proof (cases "a = b")
        case True
        with Inr Schedule show ?thesis by simp
      next
        case False
        with ts' Cons.prems(2) have "a \<in> set ts'" by simp
        from Cons.IH [OF ts'(1) this] show ?thesis by auto
      qed
    qed
  qed
qed

lemma do_apply_loop_append:
  assumes "\<forall>e \<in> set pre. do_apply_step f nbr op ky cnorm e = Inr Skip \<or>
             (\<exists>a. do_apply_step f nbr op ky cnorm e = Inr (Schedule a))"
  shows "\<exists>ps. do_apply_loop f nbr op ky cnorm pre = Inr ps \<and>
              do_apply_loop f nbr op ky cnorm (pre @ rest) =
                (case do_apply_loop f nbr op ky cnorm rest of
                   Inl e \<Rightarrow> Inl e
                 | Inr ts \<Rightarrow> Inr (ps @ ts))"
  using assms
proof (induction pre)
  case Nil
  show ?case by (simp split: sum.split)
next
  case (Cons e pre)
  then obtain ps where ps: "do_apply_loop f nbr op ky cnorm pre = Inr ps"
      "do_apply_loop f nbr op ky cnorm (pre @ rest) =
         (case do_apply_loop f nbr op ky cnorm rest of Inl e \<Rightarrow> Inl e | Inr ts \<Rightarrow> Inr (ps @ ts))"
    by auto
  from Cons.prems consider "do_apply_step f nbr op ky cnorm e = Inr Skip"
    | a where "do_apply_step f nbr op ky cnorm e = Inr (Schedule a)"
    by auto
  then show ?case
  proof cases
    case 1
    with ps show ?thesis by simp
  next
    case 2
    with ps show ?thesis by (simp split: sum.split)
  qed
qed

lemma do_apply_loop_break:
  assumes "do_apply_step f nbr op ky cnorm d = Inr Break"
  shows "do_apply_loop f nbr op ky cnorm (d # post) = Inr []"
  using assms by simp


lemma periodic_doit_no_periodic:
  "\<forall>b \<in> set bs. fst b \<noteq> 1 \<Longrightarrow> periodic_doit n bs ls = Inr True"
  by (induction n bs ls rule: periodic_doit.induct) auto

lemma do_apply_step_total':
  assumes "truncate_tol f (thresh f) ky = Inr tol"
    and "(1 \<le> level ky \<and> level ky \<le> 63) \<or> (\<forall>b \<in> set (bc f). fst b \<noteq> 1)"
  shows "\<exists>s. do_apply_step f nbr op ky cnorm d = Inr s"
proof -
  have "\<exists>b. periodic_doit (level ky) (bc f) (translation d) = Inr b"
    using assms(2) periodic_doit_no_periodic [of "bc f" "level ky" "translation d"]
      periodic_doit_total [of "level ky" "2 ^ (level ky - 1)" "bc f" "translation d"]
    by (auto simp: lmax_of_def)
  then obtain b where "periodic_doit (level ky) (bc f) (translation d) = Inr b" by blast
  then show ?thesis
    using assms(1) by (simp add: do_apply_step_def Let_def split: option.split)
qed

lemma do_apply_loop_total':
  assumes "truncate_tol f (thresh f) ky = Inr tol"
    and "(1 \<le> level ky \<and> level ky \<le> 63) \<or> (\<forall>b \<in> set (bc f). fst b \<noteq> 1)"
  shows "\<exists>ts. do_apply_loop f nbr op ky cnorm ds = Inr ts"
proof (induction ds)
  case Nil
  show ?case by simp
next
  case (Cons d ds)
  obtain s where s: "do_apply_step f nbr op ky cnorm d = Inr s"
    using do_apply_step_total' [OF assms] by blast
  from Cons obtain ts where "do_apply_loop f nbr op ky cnorm ds = Inr ts" by blast
  with s show ?case by (cases s) simp_all
qed

lemma do_apply_step_valid:
  assumes "truncate_tol f (thresh f) ky = Inr tol"
    and "periodic_doit (level ky) (bc f) (translation d) = Inr True"
    and "nbr ky d = Some dest"
  shows "do_apply_step f nbr op ky cnorm d =
           Inr (if cnorm * op_norm op (level ky) d > tol / 3
                then Schedule \<lparr>a_key = ky, a_d = d, a_dest = dest, a_tol = tol, a_fac = 3,
                                a_cnorm = cnorm\<rparr>
                else if 1 \<le> distsq d then Break else Skip)"
  using assms by (simp add: do_apply_step_def Let_def)

lemma do_apply_step_invalid:
  assumes "periodic_doit (level ky) (bc f) (translation d) = Inr True"
    and "nbr ky d = None"
  shows "do_apply_step f nbr op ky cnorm d = Inr Skip"
  using assms by (simp add: do_apply_step_def Let_def)

lemma send_accumulate_absent:
  assumes "cs dest = None"
  shows "send_accumulate cs dest r =
           Inr (cs(dest \<mapsto> FunctionNode_default\<lparr>n_coeffs := Some r\<rparr>),
                if 0 < level dest then [Set_has_children_recursive (parent dest)] else [])"
  using assms
  by (simp add: send_accumulate_def accumulate_def has_coeff_def FunctionNode_default_def)

lemma send_accumulate_present:
  assumes "cs dest = Some n" "n_coeffs n = Some c0" "0 < tsize c0" "dims c0 = dims r"
  shows "send_accumulate cs dest r =
           Inr (cs(dest \<mapsto> n\<lparr>n_coeffs := Some (c0\<lparr>elem := (\<lambda>i. elem c0 i + elem r i)\<rparr>)\<rparr>), [])"
  using assms
  by (simp add: send_accumulate_def accumulate_def has_coeff_def t_add_def)

text \<open>
  Claim C4, as amended.  In \<open>do_apply\<close>, with \<open>fac = 3\<close> and
  \<open>tol = truncate_tol(thresh, key)\<close>, for every displacement \<open>d\<close> that the loop reaches (no
  earlier displacement of the list ended the loop), that passes the test on the periodic
  axes and whose destination key is valid: a kernel task is scheduled for \<open>d\<close> if and only
  if \<open>cnorm * opnorm > tol / fac\<close>; the kernel sends its result to the destination node
  if and only if the norm of the result exceeds \<open>0.3 * tol / fac\<close>, and the node receiving
  it is created if absent (and then registered with its parent) or has the result added
  to its coefficients; and when \<open>d\<close> has squared distance at least 1 and fails the screen,
  the rest of the list is abandoned: the tasks are those of the list cut before \<open>d\<close>.
\<close>

theorem do_apply_screening:
  assumes tol: "truncate_tol f (thresh f) ky = Inr tol"
    and lv: "(1 \<le> level ky \<and> level ky \<le> 63) \<or> (\<forall>b \<in> set (bc f). fst b \<noteq> 1)"
    and disp: "get_disp op (level ky) = pre @ d # post"
    and reached: "\<forall>e \<in> set pre.
          periodic_doit (level ky) (bc f) (translation e) = Inr True \<and>
          (nbr ky e \<noteq> None \<longrightarrow> normf c * op_norm op (level ky) e > tol / 3 \<or> distsq e < 1)"
    and per: "periodic_doit (level ky) (bc f) (translation d) = Inr True"
    and dest: "nbr ky d = Some dest"
  shows "\<exists>tasks.
      do_apply f nbr normf op ky c = Inr tasks \<and>
      (\<lparr>a_key = ky, a_d = d, a_dest = dest, a_tol = tol, a_fac = 3, a_cnorm = normf c\<rparr> \<in> set tasks
         \<longleftrightarrow> normf c * op_norm op (level ky) d > tol / 3) \<and>
      (\<not> normf c * op_norm op (level ky) d > tol / 3 \<and> 1 \<le> distsq d \<longrightarrow>
         do_apply_loop f nbr op ky (normf c) pre = Inr tasks) \<and>
      (\<forall>a. (do_apply_kernel normf op c a \<noteq> []) =
             (normf (op_apply op (a_key a) (a_d a) c (a_tol a / a_fac a / a_cnorm a))
                > 0.3 * a_tol a / a_fac a) \<and>
           (do_apply_kernel normf op c a \<noteq> [] \<longrightarrow>
              do_apply_kernel normf op c a =
                [Accumulate (a_dest a)
                   (op_apply op (a_key a) (a_d a) c (a_tol a / a_fac a / a_cnorm a))])) \<and>
      (\<forall>cs r. cs dest = None \<longrightarrow>
          send_accumulate cs dest r =
            Inr (cs(dest \<mapsto> FunctionNode_default\<lparr>n_coeffs := Some r\<rparr>),
                 if 0 < level dest then [Set_has_children_recursive (parent dest)] else [])) \<and>
      (\<forall>cs r n c0. cs dest = Some n \<and> n_coeffs n = Some c0 \<and> 0 < tsize c0 \<and> dims c0 = dims r \<longrightarrow>
          send_accumulate cs dest r =
            Inr (cs(dest \<mapsto> n\<lparr>n_coeffs := Some (c0\<lparr>elem := (\<lambda>i. elem c0 i + elem r i)\<rparr>)\<rparr>), []))"
proof -
  let ?step = "do_apply_step f nbr op ky (normf c)"
  let ?loop = "do_apply_loop f nbr op ky (normf c)"
  let ?args = "\<lparr>a_key = ky, a_d = d, a_dest = dest, a_tol = tol, a_fac = 3, a_cnorm = normf c\<rparr>"
  let ?screen = "normf c * op_norm op (level ky) d > tol / 3"
  have pre_ok: "?step e = Inr Skip \<or> (\<exists>a. ?step e = Inr (Schedule a))" if "e \<in> set pre" for e
  proof (cases "nbr ky e")
    case None
    with reached that show ?thesis by (simp add: do_apply_step_invalid)
  next
    case (Some de)
    with reached that have p: "periodic_doit (level ky) (bc f) (translation e) = Inr True"
      and s: "normf c * op_norm op (level ky) e > tol / 3 \<or> distsq e < 1"
      by auto
    show ?thesis
      using s by (auto simp: do_apply_step_valid [where nbr = nbr, OF tol p Some])
  qed
  then obtain ps where ps: "?loop pre = Inr ps"
    and app: "?loop (pre @ d # post) =
        (case ?loop (d # post) of Inl e \<Rightarrow> Inl e | Inr ts \<Rightarrow> Inr (ps @ ts))"
    using do_apply_loop_append [of pre f nbr op ky "normf c" "d # post"] by blast
  obtain qs where qs: "?loop post = Inr qs"
    using do_apply_loop_total' [OF tol lv] by blast
  have stepd: "?step d = Inr (if ?screen then Schedule ?args
                               else if 1 \<le> distsq d then Break else Skip)"
    by (rule do_apply_step_valid [where nbr = nbr, OF tol per dest])
  obtain rs where rs: "?loop (d # post) = Inr rs"
    using do_apply_loop_total' [OF tol lv] by blast
  have tasks: "do_apply f nbr normf op ky c = Inr (ps @ rs)"
    by (simp only: do_apply_def disp app rs sum.case)
  have iff: "?args \<in> set (ps @ rs) \<longleftrightarrow> ?screen"
  proof
    assume "?args \<in> set (ps @ rs)"
    then obtain e where "?step e = Inr (Schedule ?args)"
      using do_apply_loop_scheduled [of f nbr op ky "normf c" "pre @ d # post" "ps @ rs" ?args]
        app rs by auto
    then have e: "do_apply_step f nbr op ky (normf c) e = Inr (Schedule ?args)" .
    have "e = d"
      using e by (auto simp: do_apply_step_def Let_def split: sum.splits if_splits option.splits)
    with e stepd show ?screen by (auto split: if_splits)
  next
    assume ?screen
    with stepd qs rs have "rs = ?args # qs" by simp
    then show "?args \<in> set (ps @ rs)" by simp
  qed
  have abandon: "?loop pre = Inr (ps @ rs)" if "\<not> ?screen" "1 \<le> distsq d"
  proof -
    from that stepd have "?step d = Inr Break" by simp
    with rs have "rs = []" by simp
    with ps show ?thesis by simp
  qed
  have kernel: "(do_apply_kernel normf op c a \<noteq> []) =
             (normf (op_apply op (a_key a) (a_d a) c (a_tol a / a_fac a / a_cnorm a))
                > 0.3 * a_tol a / a_fac a) \<and>
           (do_apply_kernel normf op c a \<noteq> [] \<longrightarrow>
              do_apply_kernel normf op c a =
                [Accumulate (a_dest a)
                   (op_apply op (a_key a) (a_d a) c (a_tol a / a_fac a / a_cnorm a))])" for a
    by (simp add: do_apply_kernel_def Let_def)
  show ?thesis
    using tasks iff abandon kernel send_accumulate_absent send_accumulate_present
    by (intro exI [of _ "ps @ rs"]) blast
qed

theorem do_apply_screening_witness:
  "(\<exists>tasks.
      do_apply (ex_impl [(0, 0)]) ex_nbr ex_normf
        (ex_op [ex_disp [0], ex_disp [1], ex_disp [2]] (\<lambda>d. if distsq d = 0 then 1 else 1 / 1000))
        (ex_disp [0]) \<lparr>dims = [1], elem = (\<lambda>i. 1)\<rparr> = Inr tasks \<and>
      \<lparr>a_key = ex_disp [0], a_d = ex_disp [0], a_dest = ex_disp [0], a_tol = 3 / 100, a_fac = 3,
        a_cnorm = 1\<rparr> \<in> set tasks) \<and>
   (\<exists>tasks.
      do_apply (ex_impl [(0, 0)]) ex_nbr ex_normf
        (ex_op [ex_disp [0], ex_disp [1], ex_disp [2]] (\<lambda>d. if distsq d = 0 then 1 else 1 / 1000))
        (ex_disp [0]) \<lparr>dims = [1], elem = (\<lambda>i. 1)\<rparr> = Inr tasks \<and>
      \<lparr>a_key = ex_disp [0], a_d = ex_disp [1], a_dest = ex_disp [1], a_tol = 3 / 100, a_fac = 3,
        a_cnorm = 1\<rparr> \<notin> set tasks \<and>
      do_apply_loop (ex_impl [(0, 0)]) ex_nbr
        (ex_op [ex_disp [0], ex_disp [1], ex_disp [2]] (\<lambda>d. if distsq d = 0 then 1 else 1 / 1000))
        (ex_disp [0]) 1 [ex_disp [0]] = Inr tasks)"
proof -
  let ?f = "ex_impl [(0, 0)]"
  let ?op = "ex_op [ex_disp [0], ex_disp [1], ex_disp [2]] (\<lambda>d. if distsq d = 0 then 1 else 1 / 1000)"
  let ?ky = "ex_disp [0]"
  let ?c = "\<lparr>dims = [1], elem = (\<lambda>i. 1)\<rparr>"
  have tol: "truncate_tol ?f (thresh ?f) ?ky = Inr (3 / 100)"
    by (simp add: truncate_tol_def ex_impl_def)
  have lv: "(1 \<le> level ?ky \<and> level ?ky \<le> 63) \<or> (\<forall>b \<in> set (bc ?f). fst b \<noteq> 1)"
    by (simp add: ex_disp_def)
  have nf: "ex_normf ?c = 1" by (simp add: ex_normf_def)
  have per: "periodic_doit (level ?ky) (bc ?f) (translation e) = Inr True" for e :: key
    by (cases "translation e") (simp_all add: ex_impl_def)
  have d0: "get_disp ?op (level ?ky) = [] @ ex_disp [0] # [ex_disp [1], ex_disp [2]]"
    by (simp add: ex_op_def)
  have d1: "get_disp ?op (level ?ky) = [ex_disp [0]] @ ex_disp [1] # [ex_disp [2]]"
    by (simp add: ex_op_def)
  have r0: "\<forall>e \<in> set []. periodic_doit (level ?ky) (bc ?f) (translation e) = Inr True \<and>
          (ex_nbr ?ky e \<noteq> None \<longrightarrow> ex_normf ?c * op_norm ?op (level ?ky) e > (3 / 100) / 3 \<or> distsq e < 1)"
    by simp
  have r1: "\<forall>e \<in> set [ex_disp [0]]. periodic_doit (level ?ky) (bc ?f) (translation e) = Inr True \<and>
          (ex_nbr ?ky e \<noteq> None \<longrightarrow> ex_normf ?c * op_norm ?op (level ?ky) e > (3 / 100) / 3 \<or> distsq e < 1)"
    by (simp add: ex_normf_def ex_op_def distsq_def ex_disp_def ex_impl_def)
  have n0: "ex_nbr ?ky (ex_disp [0]) = Some (ex_disp [0])"
    by (simp add: ex_nbr_def ex_disp_def)
  have n1: "ex_nbr ?ky (ex_disp [1]) = Some (ex_disp [1])"
    by (simp add: ex_nbr_def ex_disp_def)
  have s0: "ex_normf ?c * op_norm ?op (level ?ky) (ex_disp [0]) > (3 / 100) / 3"
    by (simp add: ex_normf_def ex_op_def distsq_def ex_disp_def)
  have s1: "\<not> ex_normf ?c * op_norm ?op (level ?ky) (ex_disp [1]) > (3 / 100) / 3 \<and>
            1 \<le> distsq (ex_disp [1])"
    by (simp add: ex_normf_def ex_op_def distsq_def ex_disp_def)
  obtain ta where ta: "do_apply ?f ex_nbr ex_normf ?op ?ky ?c = Inr ta"
    and ia: "(\<lparr>a_key = ?ky, a_d = ex_disp [0], a_dest = ex_disp [0], a_tol = 3 / 100, a_fac = 3,
               a_cnorm = ex_normf ?c\<rparr> \<in> set ta) =
             (ex_normf ?c * op_norm ?op (level ?ky) (ex_disp [0]) > (3 / 100) / 3)"
    using do_apply_screening [where nbr = ex_nbr and normf = ex_normf and c = ?c,
        OF tol lv d0 r0 per n0]
    by blast
  have A: "\<exists>tasks. do_apply ?f ex_nbr ex_normf ?op ?ky ?c = Inr tasks \<and>
      \<lparr>a_key = ex_disp [0], a_d = ex_disp [0], a_dest = ex_disp [0], a_tol = 3 / 100, a_fac = 3,
        a_cnorm = 1\<rparr> \<in> set tasks"
    using ta ia [THEN iffD2, OF s0] unfolding nf by blast
  obtain tb where tb: "do_apply ?f ex_nbr ex_normf ?op ?ky ?c = Inr tb"
    and ib: "(\<lparr>a_key = ?ky, a_d = ex_disp [1], a_dest = ex_disp [1], a_tol = 3 / 100, a_fac = 3,
               a_cnorm = ex_normf ?c\<rparr> \<in> set tb) =
             (ex_normf ?c * op_norm ?op (level ?ky) (ex_disp [1]) > (3 / 100) / 3)"
    and ab: "\<not> ex_normf ?c * op_norm ?op (level ?ky) (ex_disp [1]) > (3 / 100) / 3 \<and>
             1 \<le> distsq (ex_disp [1]) \<longrightarrow>
             do_apply_loop ?f ex_nbr ?op ?ky (ex_normf ?c) [ex_disp [0]] = Inr tb"
    using do_apply_screening [where nbr = ex_nbr and normf = ex_normf and c = ?c,
        OF tol lv d1 r1 per n1]
    by blast
  have B: "\<exists>tasks. do_apply ?f ex_nbr ex_normf ?op ?ky ?c = Inr tasks \<and>
      \<lparr>a_key = ex_disp [0], a_d = ex_disp [1], a_dest = ex_disp [1], a_tol = 3 / 100, a_fac = 3,
        a_cnorm = 1\<rparr> \<notin> set tasks \<and>
      do_apply_loop ?f ex_nbr ?op ?ky 1 [ex_disp [0]] = Inr tasks"
    using tb ib s1 ab unfolding nf by blast
  show ?thesis using A B by blast
qed

text \<open>
  The claim as stated, for every displacement whose destination is valid, fails where the
  test on the periodic axis ends the loop: on a periodic axis at level 1 the displacement
  2 has a valid destination and passes the screen, and no kernel task is scheduled for it.
\<close>

theorem do_apply_screening_counterexample:
  "ex_nbr (ex_disp [0]) (ex_disp [2]) = Some (ex_disp [0]) \<and>
   truncate_tol (ex_impl [(1, 1)]) (thresh (ex_impl [(1, 1)])) (ex_disp [0]) = Inr (3 / 100) \<and>
   ex_normf \<lparr>dims = [1], elem = (\<lambda>i. 1)\<rparr> *
     op_norm (ex_op [ex_disp [0], ex_disp [2]] (\<lambda>d. 1)) (level (ex_disp [0])) (ex_disp [2])
     > (3 / 100) / 3 \<and>
   do_apply (ex_impl [(1, 1)]) ex_nbr ex_normf (ex_op [ex_disp [0], ex_disp [2]] (\<lambda>d. 1))
     (ex_disp [0]) \<lparr>dims = [1], elem = (\<lambda>i. 1)\<rparr> =
     Inr [\<lparr>a_key = ex_disp [0], a_d = ex_disp [0], a_dest = ex_disp [0], a_tol = 3 / 100,
           a_fac = 3, a_cnorm = 1\<rparr>]"
  by (simp add: ex_nbr_def ex_disp_def ex_impl_def ex_op_def ex_normf_def truncate_tol_def
      do_apply_def do_apply_step_def lmax_of_def distsq_def)

subsection \<open>The cap on periodic axes\<close>

lemma periodic_doit_first:
  shows "lmax_of n = Some m \<Longrightarrow> i < length bs \<Longrightarrow> i < length ls \<Longrightarrow> fst (bs ! i) = 1 \<Longrightarrow> \<forall>j<i. fst (bs ! j) \<noteq> 1 \<Longrightarrow>
         periodic_doit n bs ls = Inr (\<not> (ls ! i > m \<or> ls ! i \<le> - m))"
proof (induction n bs ls arbitrary: i rule: periodic_doit.induct)
  case (1 n ls)
  then show ?case by simp
next
  case (2 n b bs)
  then show ?case by simp
next
  case (3 n b bs l ls)
  show ?case
  proof (cases i)
    case 0
    with "3.prems" show ?thesis by simp
  next
    case (Suc i')
    with "3.prems" have b: "fst b \<noteq> 1" by auto
    have "periodic_doit n bs ls = Inr (\<not> (ls ! i' > m \<or> ls ! i' \<le> - m))"
      using "3.prems" Suc by (intro "3.IH" [OF b]) auto
    with b Suc show ?thesis by simp
  qed
qed

lemma periodic_doit_within:
  shows "lmax_of n = Some m \<Longrightarrow> \<forall>i<length bs. fst (bs ! i) = 1 \<longrightarrow> i < length ls \<and> - m < ls ! i \<and> ls ! i \<le> m \<Longrightarrow>
         periodic_doit n bs ls = Inr True"
proof (induction n bs ls rule: periodic_doit.induct)
  case (1 n ls)
  show ?case by simp
next
  case (2 n b bs)
  then show ?case by simp
next
  case (3 n b bs l ls)
  show ?case
  proof (cases "fst b = 1")
    case True
    with "3.prems"(2) [rule_format, of 0] "3.prems"(1) show ?thesis by auto
  next
    case False
    have "periodic_doit n bs ls = Inr True"
    proof (rule "3.IH" [OF False "3.prems"(1)], intro allI impI)
      fix i assume "i < length bs" "fst (bs ! i) = 1"
      with "3.prems"(2) [rule_format, of "Suc i"] show "i < length ls \<and> - m < ls ! i \<and> ls ! i \<le> m"
        by simp
    qed
    with False show ?thesis by simp
  qed
qed

lemma do_apply_loop_cut:
  assumes "do_apply_step f nbr op ky cnorm d = Inr Break"
  shows "do_apply_loop f nbr op ky cnorm (pre @ d # post) = do_apply_loop f nbr op ky cnorm pre"
proof (induction pre)
  case Nil
  with assms show ?case by simp
next
  case (Cons e pre)
  show ?case
  proof (cases "do_apply_step f nbr op ky cnorm e")
    case (Inl x)
    then show ?thesis by simp
  next
    case (Inr s)
    with Cons show ?thesis by (cases s) simp_all
  qed
qed

text \<open>
  Claim C5.  A displacement whose component along a periodic axis exceeds \<open>2^(n-1)\<close> in
  absolute value is to contribute no kernel task.  The loop over the axes ends at the
  first periodic axis (the \<open>break\<close> stands inside \<open>if (bc(i,0) == 1)\<close>), so the components
  along the later periodic axes are never tested.  With periodic boundary conditions on
  both axes, at the key \<open>(2, (0, 0))\<close>, the displacement \<open>(0, 3)\<close> is within the cap on
  the first axis and exceeds it on the second, \<open>3 > 2^(2-1)\<close>; \<open>do_apply\<close> schedules its
  kernel task, where it schedules none for the displacement \<open>(3, 0)\<close>.
\<close>

theorem do_apply_second_periodic_axis:
  "fst (bc (ex_impl [(1, 1), (1, 1)]) ! 1) = 1 \<and>
   \<bar>translation \<lparr>level = 2, translation = [0, 3]\<rparr> ! 1\<bar> > 2 ^ (level \<lparr>level = 2, translation = [0, 0]\<rparr> - 1) \<and>
   periodic_doit 2 (bc (ex_impl [(1, 1), (1, 1)])) [0, 3] = Inr True \<and>
   do_apply (ex_impl [(1, 1), (1, 1)]) ex_nbr ex_normf
     (ex_op [\<lparr>level = 2, translation = [0, 3]\<rparr>] (\<lambda>d. 1))
     \<lparr>level = 2, translation = [0, 0]\<rparr> \<lparr>dims = [1], elem = (\<lambda>i. 1)\<rparr> =
     Inr [\<lparr>a_key = \<lparr>level = 2, translation = [0, 0]\<rparr>, a_d = \<lparr>level = 2, translation = [0, 3]\<rparr>,
           a_dest = \<lparr>level = 2, translation = [0, 3]\<rparr>, a_tol = 3 / 100, a_fac = 3, a_cnorm = 1\<rparr>] \<and>
   do_apply (ex_impl [(1, 1), (1, 1)]) ex_nbr ex_normf
     (ex_op [\<lparr>level = 2, translation = [3, 0]\<rparr>] (\<lambda>d. 1))
     \<lparr>level = 2, translation = [0, 0]\<rparr> \<lparr>dims = [1], elem = (\<lambda>i. 1)\<rparr> = Inr []"
  by (simp add: ex_nbr_def ex_impl_def ex_op_def ex_normf_def truncate_tol_def
      do_apply_def do_apply_step_def lmax_of_def distsq_def)

subsection \<open>Compression of a node\<close>




























section \<open>Theorems on the remote method invocation layer\<close>

subsection \<open>The server keeps its invariant\<close>


lemma final_simps [simp]: "final (Inr st) = st" "final (Inl (e, st)) = st"
  by (simp_all add: final_def)

lemma then_do_simps [simp]: "then_do (Inr st) f = f st" "then_do (Inl e) f = Inl e"
  by (simp_all add: then_do_def)





















subsection \<open>Stamping\<close>


lemma is_ordered_stamp:
  fixes attr :: attrT and c :: counterT
  assumes "drop_bit 16 (ATTR_ORDERED cfg) = 0"
  shows "is_ordered cfg (attr OR push_bit 16 (ucast c)) = is_ordered cfg attr"
proof -
  have "push_bit 16 (ucast c :: attrT) AND ATTR_ORDERED cfg = 0"
  proof (rule bit_eqI)
    fix n
    have "\<not> bit (ATTR_ORDERED cfg) n" if "16 \<le> n"
    proof -
      have "bit (drop_bit 16 (ATTR_ORDERED cfg)) (n - 16) = bit (ATTR_ORDERED cfg) n"
        using that by (simp add: bit_drop_bit_eq)
      with assms show ?thesis by simp
    qed
    then show "bit (push_bit 16 (ucast c :: attrT) AND ATTR_ORDERED cfg) n = bit (0 :: attrT) n"
      by (auto simp: bit_and_iff bit_push_bit_iff)
  qed
  then have "(attr OR push_bit 16 (ucast c)) AND ATTR_ORDERED cfg = attr AND ATTR_ORDERED cfg"
    by (simp add: bit.conj_disj_distrib2)
  then show ?thesis by (simp add: is_ordered_def)
qed



lemma sent_headers_Cons3:
  "sent_headers ([Lock, Isend dest nbyte func attr RMI_TAG body, Unlock] @ evs) =
     (func, attr) # sent_headers evs"
  by (simp add: sent_headers_def)



lemma spec_ordered_sends_ordered:
  assumes "drop_bit 16 (ATTR_ORDERED cfg) = 0"
  shows "\<forall>m \<in> set ms. is_ordered cfg (snd (snd (snd m))) \<Longrightarrow>
   \<forall>h \<in> set (sent_headers (spec_ordered_sends dest c ms)). is_ordered cfg (snd h)"
proof (induction ms arbitrary: c)
  case Nil
  show ?case by (simp add: sent_headers_def)
next
  case (Cons m ms)
  obtain body nbyte func attr where m: "m = (body, nbyte, func, attr)" by (cases m)
  show ?case
    unfolding m spec_ordered_sends.simps sent_headers_Cons3
    using Cons.prems Cons.IH [of "c + 1"] m is_ordered_stamp [OF assms] by simp
qed











subsection \<open>Ordered delivery\<close>




subsection \<open>Fatal errors\<close>

lemma wait_req_Some: "True \<in> set ts \<Longrightarrow> \<exists>r. wait_req ts = Some r"
  by (induction ts) auto

lemma wait_req_None: "True \<notin> set ts \<Longrightarrow> wait_req ts = None"
  by (induction ts) auto

lemma info_len_header:
  assumes "0 < sizeof_size_t cfg"
  shows "HEADER_LEN cfg \<le> info_len cfg"
proof -
  let ?h = "HEADER_LEN cfg" and ?s = "sizeof_size_t cfg"
  have "?h mod ?s < ?s" using assms by simp
  moreover have "?h = ?h div ?s * ?s + ?h mod ?s" by simp
  moreover have "(?h div ?s + 2) * ?s = ?h div ?s * ?s + 2 * ?s" by (simp add: algebra_simps)
  ultimately show ?thesis unfolding info_len_def by linarith
qed

lemma then_do_Inl: "then_do (Inl e) f = Inl e"
  by (simp add: then_do_def)

lemma process_arrivals_raise:
  "process_arrival cfg alloc_ok a st = Inl e \<Longrightarrow> process_arrivals cfg alloc_ok (a # rest) st = Inl e"
  by (simp add: then_do_def)

lemma run_raise:
  assumes "process_arrival cfg alloc_ok a st = Inl (e, st')"
  shows "run cfg alloc_ok ((a # rest, fin) # polls) st = (Raised e, st')"
  using assms by (simp add: run_body_def then_do_def)

text \<open>
  Claim C9.  When an ordered message that cannot be handled at once arrives and the
  out-of-order queue already holds \<open>maxq_\<close> messages, the server raises the overflow
  exception: the loop of \<open>RMI::run\<close> ends with it, whatever else arrived and whatever would
  arrive later.  When the allocation of the buffer of a pending huge message fails,
  \<open>post_pending_huge_msg\<close> raises an exception, the entry having been removed from the
  queue of huge messages; raised in the handler of the control record, it ends the loop
  of \<open>RMI::run\<close> in the same way.
\<close>

theorem rmi_fatal_errors:
  "(is_ordered cfg (h_attr (ar_buf a)) \<and> count_of (h_attr (ar_buf a)) \<noteq> recv_counters st (ar_src a) \<and>
    maxq cfg \<le> length (q st) \<longrightarrow>
      (\<exists>st'. process_arrival cfg alloc_ok a st = Inl (Queue_overflow (length (q st)), st') \<and>
             trace st' = trace st \<and> q st' = q st \<and>
             run cfg alloc_ok ((a # rest, fin) # polls) st = (Raised (Queue_overflow (length (q st))), st'))) \<and>
   (\<not> huge_pending stp \<and> hugeq stp = (src, nbyte) # pending \<and> \<not> alloc_ok nbyte \<longrightarrow>
      post_pending_huge_msg cfg alloc_ok stp = Inl (Alloc_failed, stp\<lparr>hugeq := pending\<rparr>)) \<and>
   (h_func (ar_buf ac) = Huge_msg_handler \<and> \<not> is_ordered cfg (h_attr (ar_buf ac)) \<and>
    \<not> huge_pending stc \<and> hugeq stc = [] \<and> \<not> alloc_ok (snd (b_info (ar_buf ac))) \<longrightarrow>
      (\<exists>st'. process_arrival cfg alloc_ok ac stc = Inl (Alloc_failed, st') \<and>
             hugeq st' = [] \<and> \<not> huge_pending st' \<and>
             run cfg alloc_ok ((ac # rest, fin) # polls) stc = (Raised Alloc_failed, st')))"
proof (intro conjI impI)
  assume h: "is_ordered cfg (h_attr (ar_buf a)) \<and>
    count_of (h_attr (ar_buf a)) \<noteq> recv_counters st (ar_src a) \<and> maxq cfg \<le> length (q st)"
  define st' where "st' = st\<lparr>recv_buf := (recv_buf st)(ar_i a := ar_buf a),
      nmsg_recv := nmsg_recv st + 1, nbyte_recv := nbyte_recv st + ar_len a\<rparr>"
  have pa: "process_arrival cfg alloc_ok a st = Inl (Queue_overflow (length (q st)), st')"
    using h by (simp add: process_arrival_def Let_def st'_def)
  have "trace st' = trace st \<and> q st' = q st" by (simp add: st'_def)
  with pa run_raise [OF pa]
  show "\<exists>st'. process_arrival cfg alloc_ok a st = Inl (Queue_overflow (length (q st)), st') \<and>
             trace st' = trace st \<and> q st' = q st \<and>
             run cfg alloc_ok ((a # rest, fin) # polls) st = (Raised (Queue_overflow (length (q st))), st')"
    by blast
next
  assume "\<not> huge_pending stp \<and> hugeq stp = (src, nbyte) # pending \<and> \<not> alloc_ok nbyte"
  then show "post_pending_huge_msg cfg alloc_ok stp = Inl (Alloc_failed, stp\<lparr>hugeq := pending\<rparr>)"
    by (simp add: post_pending_huge_msg_def)
next
  assume h: "h_func (ar_buf ac) = Huge_msg_handler \<and> \<not> is_ordered cfg (h_attr (ar_buf ac)) \<and>
    \<not> huge_pending stc \<and> hugeq stc = [] \<and> \<not> alloc_ok (snd (b_info (ar_buf ac)))"
  define st' where "st' = stc\<lparr>recv_buf := (recv_buf stc)(ar_i ac := ar_buf ac),
      nmsg_recv := nmsg_recv stc + 1, nbyte_recv := nbyte_recv stc + ar_len ac,
      trace := trace stc @ [Invoke Huge_msg_handler (ar_src ac) (h_attr (ar_buf ac)) (ar_len ac) (ar_i ac)],
      hugeq := []\<rparr>"
  have pa: "process_arrival cfg alloc_ok ac stc = Inl (Alloc_failed, st')"
    using h by (simp add: process_arrival_def Let_def st'_def invoke_def huge_msg_handler_def
        post_pending_huge_msg_def then_do_def case_prod_beta)
  have "hugeq st' = [] \<and> \<not> huge_pending st'" using h by (simp add: st'_def)
  with pa run_raise [OF pa]
  show "\<exists>st'. process_arrival cfg alloc_ok ac stc = Inl (Alloc_failed, st') \<and>
             hugeq st' = [] \<and> \<not> huge_pending st' \<and>
             run cfg alloc_ok ((ac # rest, fin) # polls) stc = (Raised Alloc_failed, st')"
    by blast
qed

theorem rmi_fatal_errors_witness:
  "fst (run ex_cfg (\<lambda>n. True) [([ex_arrival 1 0 5 0x50001, ex_arrival 1 1 0 0x00001], False), ([], True)] ex_full)
     = Raised (Queue_overflow 4) \<and>
   post_pending_huge_msg ex_cfg (\<lambda>n. n \<le> 4096) ((ex_state (\<lambda>s. 0))\<lparr>hugeq := [(1, 5000), (2, 3000)]\<rparr>)
     = Inl (Alloc_failed, (ex_state (\<lambda>s. 0))\<lparr>hugeq := [(2, 3000)]\<rparr>) \<and>
   fst (run ex_cfg (\<lambda>n. n \<le> 4096) [([ex_huge_arrival, ex_arrival 1 1 0 0], False), ([], True)] (ex_state (\<lambda>s. 0)))
     = Raised Alloc_failed"
proof -
  note inst = rmi_fatal_errors [where cfg = ex_cfg and a = "ex_arrival 1 0 5 0x50001" and st = ex_full
      and alloc_ok = "\<lambda>n. n \<le> 4096" and rest = "[ex_arrival 1 1 0 0]" and fin = False and polls = "[([], True)]"
      and stp = "(ex_state (\<lambda>s. 0))\<lparr>hugeq := [(1, 5000), (2, 3000)]\<rparr>" and src = 1 and nbyte = 5000
      and pending = "[(2, 3000)]" and ac = ex_huge_arrival and stc = "ex_state (\<lambda>s. 0)"]
  have h2: "\<not> huge_pending ((ex_state (\<lambda>s. 0))\<lparr>hugeq := [(1, 5000), (2, 3000)]\<rparr>) \<and>
      hugeq ((ex_state (\<lambda>s. 0))\<lparr>hugeq := [(1, 5000), (2, 3000)]\<rparr>) = (1, 5000) # [(2, 3000)] \<and>
      \<not> (5000::nat) \<le> 4096"
    by (simp add: ex_state_def)
  have h3: "h_func (ar_buf ex_huge_arrival) = Huge_msg_handler \<and>
      \<not> is_ordered ex_cfg (h_attr (ar_buf ex_huge_arrival)) \<and>
      \<not> huge_pending (ex_state (\<lambda>s. 0)) \<and> hugeq (ex_state (\<lambda>s. 0)) = [] \<and>
      \<not> snd (b_info (ar_buf ex_huge_arrival)) \<le> 4096"
    by (simp add: ex_state_def ex_huge_arrival_def is_ordered_def ex_cfg_def)
  have p2: "post_pending_huge_msg ex_cfg (\<lambda>n. n \<le> 4096) ((ex_state (\<lambda>s. 0))\<lparr>hugeq := [(1, 5000), (2, 3000)]\<rparr>)
     = Inl (Alloc_failed, (ex_state (\<lambda>s. 0))\<lparr>hugeq := [(2, 3000)]\<rparr>)"
    using inst [THEN conjunct2, THEN conjunct1] h2 by simp
  have p3: "fst (run ex_cfg (\<lambda>n. n \<le> 4096) [([ex_huge_arrival, ex_arrival 1 1 0 0], False), ([], True)] (ex_state (\<lambda>s. 0)))
     = Raised Alloc_failed"
    using inst [THEN conjunct2, THEN conjunct2] h3 by auto
  note inst1 = rmi_fatal_errors [where cfg = ex_cfg and a = "ex_arrival 1 0 5 0x50001" and st = ex_full
      and alloc_ok = "\<lambda>n. True" and rest = "[ex_arrival 1 1 0 0x00001]" and fin = False and polls = "[([], True)]",
      THEN conjunct1]
  have h1: "is_ordered ex_cfg (h_attr (ar_buf (ex_arrival 1 0 5 0x50001))) \<and>
      count_of (h_attr (ar_buf (ex_arrival 1 0 5 0x50001))) \<noteq> recv_counters ex_full (ar_src (ex_arrival 1 0 5 0x50001)) \<and>
      maxq ex_cfg \<le> length (q ex_full)"
    by (simp add: ex_arrival_def ex_full_def ex_state_def ex_cfg_def is_ordered_def count_of_def)
  have l: "length (q ex_full) = 4" by (simp add: ex_full_def ex_state_def)
  have p1: "fst (run ex_cfg (\<lambda>n. True) [([ex_arrival 1 0 5 0x50001, ex_arrival 1 1 0 0x00001], False), ([], True)] ex_full)
     = Raised (Queue_overflow 4)"
    using inst1 h1 unfolding l by auto
  from p1 p2 p3 show ?thesis by blast
qed

subsection \<open>Eager and huge messages\<close>

lemma private_isend_huge:
  assumes big: "max_msg_len cfg < nbyte"
    and ctl: "HEADER_LEN cfg \<le> info_len cfg" "info_len cfg \<le> max_msg_len cfg"
    and un: "\<not> is_ordered cfg (ATTR_UNORDERED cfg)"
    and ts: "True \<in> set send_tests" and ta: "True \<in> set ack_tests"
  shows "\<exists>st'. private_isend (Suc (Suc depth)) cfg send_tests ack_tests st body nbyte dest func attr =
      Some (Inr (st',
        [Irecv_ack dest (sizeof_int cfg),
         Lock, Isend dest (info_len cfg) Huge_msg_handler (ATTR_UNORDERED cfg) RMI_TAG (rmi_rank cfg, nbyte), Unlock,
         Wait_send, Wait_ack,
         Lock, Isend dest nbyte func
                 (if is_ordered cfg attr then attr OR push_bit 16 (ucast (send_counters st dest)) else attr)
                 RMI_HUGE_DAT_TAG body, Unlock]))"
proof -
  obtain r1 where w1: "wait_req send_tests = Some r1" using wait_req_Some [OF ts] by blast
  obtain r2 where w2: "wait_req ack_tests = Some r2" using wait_req_Some [OF ta] by blast
  have inner: "private_isend (Suc depth) cfg send_tests ack_tests st (rmi_rank cfg, nbyte) (info_len cfg) dest
      Huge_msg_handler (ATTR_UNORDERED cfg) =
      Some (Inr (st\<lparr>nmsg_sent := nmsg_sent st + 1, nbyte_sent := nbyte_sent st + info_len cfg\<rparr>,
        [Lock, Isend dest (info_len cfg) Huge_msg_handler (ATTR_UNORDERED cfg) RMI_TAG (rmi_rank cfg, nbyte), Unlock]))"
    using ctl un by (simp add: send_locked_def)
  show ?thesis
    using big by (simp only: private_isend.simps(2) [of "Suc depth"] inner) (simp add: w1 w2 send_locked_def Let_def)
qed

lemma private_isend_blocks:
  assumes big: "max_msg_len cfg < nbyte"
    and ctl: "HEADER_LEN cfg \<le> info_len cfg" "info_len cfg \<le> max_msg_len cfg"
    and ta: "True \<notin> set ack_tests"
  shows "private_isend (Suc (Suc depth)) cfg send_tests ack_tests st body nbyte dest func attr = None"
proof -
  have inner: "\<exists>r. private_isend (Suc depth) cfg send_tests ack_tests st (rmi_rank cfg, nbyte) (info_len cfg) dest
      Huge_msg_handler (ATTR_UNORDERED cfg) = Some (Inr r)"
    using ctl by simp
  then obtain r where inner': "private_isend (Suc depth) cfg send_tests ack_tests st (rmi_rank cfg, nbyte) (info_len cfg) dest
      Huge_msg_handler (ATTR_UNORDERED cfg) = Some (Inr r)" by blast
  show ?thesis
    using big by (simp only: private_isend.simps(2) [of "Suc depth"] inner')
      (simp add: wait_req_None [OF ta] split: option.split prod.split)
qed

text \<open>
  Claim C8, as amended.  \<open>isend\<close> transmits a payload of at least \<open>HEADER_LEN\<close> and at
  most \<open>max_msg_len_\<close> bytes in a single non-blocking send on the RMI tag, and raises an
  exception, sending nothing, for a payload of at most \<open>max_msg_len_\<close> bytes that is
  smaller than \<open>HEADER_LEN\<close>.  For a payload larger than \<open>max_msg_len_\<close> the sender posts
  the receive of the ACK, sends to the handler of huge messages of the destination an
  unordered control record with its rank and the byte count, waits for this send and then
  for the ACK, and only then sends the payload on the \<open>HUGE_DAT\<close> tag; it never sends the
  payload when no ACK arrives.  The destination appends \<open>(src, nbyte)\<close> to its queue of
  huge messages; when the spare receive slot is free it allocates an aligned buffer of
  \<open>nbyte\<close> bytes, posts a receive from \<open>src\<close> on the \<open>HUGE_DAT\<close> tag and sends on the
  \<open>HUGE_ACK\<close> tag an ACK of \<open>sizeof(int)\<close> bytes; when the slot is taken the entry waits
  until \<open>post_recv_buf\<close> frees the slot.
\<close>

theorem isend_eager_or_rendezvous:
  "(HEADER_LEN cfg \<le> nbyte \<and> nbyte \<le> max_msg_len cfg \<longrightarrow>
      (\<exists>st'. private_isend (Suc depth) cfg send_tests ack_tests st body nbyte dest func attr =
         Some (Inr (st',
           [Lock, Isend dest nbyte func
                    (if is_ordered cfg attr then attr OR push_bit 16 (ucast (send_counters st dest)) else attr)
                    RMI_TAG body, Unlock])))) \<and>
   (nbyte < HEADER_LEN cfg \<and> nbyte \<le> max_msg_len cfg \<longrightarrow>
      private_isend (Suc depth) cfg send_tests ack_tests st body nbyte dest func attr =
        Some (Inl (Buffer_too_small nbyte))) \<and>
   (max_msg_len cfg < nbyte \<and> 0 < sizeof_size_t cfg \<and> info_len cfg \<le> max_msg_len cfg \<and>
    \<not> is_ordered cfg (ATTR_UNORDERED cfg) \<and> True \<in> set send_tests \<and> True \<in> set ack_tests \<longrightarrow>
      (\<exists>st'. private_isend (Suc (Suc depth)) cfg send_tests ack_tests st body nbyte dest func attr =
         Some (Inr (st',
           [Irecv_ack dest (sizeof_int cfg),
            Lock, Isend dest (info_len cfg) Huge_msg_handler (ATTR_UNORDERED cfg) RMI_TAG (rmi_rank cfg, nbyte), Unlock,
            Wait_send, Wait_ack,
            Lock, Isend dest nbyte func
                    (if is_ordered cfg attr then attr OR push_bit 16 (ucast (send_counters st dest)) else attr)
                    RMI_HUGE_DAT_TAG body, Unlock])))) \<and>
   (max_msg_len cfg < nbyte \<and> 0 < sizeof_size_t cfg \<and> info_len cfg \<le> max_msg_len cfg \<and>
    True \<notin> set ack_tests \<longrightarrow>
      private_isend (Suc (Suc depth)) cfg send_tests ack_tests st body nbyte dest func attr = None) \<and>
   (\<not> huge_pending rst \<and> hugeq rst = [] \<and> alloc_ok (snd (b_info buf)) \<longrightarrow>
      huge_msg_handler cfg alloc_ok buf rst =
        Inr (rst\<lparr>hugeq := [], huge_pending := True,
                 trace := trace rst @
                   [Memalign (snd (b_info buf)),
                    Post_recv (nrecv cfg) (snd (b_info buf)) (Some (fst (b_info buf))) RMI_HUGE_DAT_TAG,
                    Send_ack (fst (b_info buf)) (sizeof_int cfg)]\<rparr>)) \<and>
   (huge_pending rst \<longrightarrow>
      huge_msg_handler cfg alloc_ok buf rst = Inr (rst\<lparr>hugeq := hugeq rst @ [b_info buf]\<rparr>)) \<and>
   (hugeq rst = (hsrc, hbyte) # pending \<and> alloc_ok hbyte \<longrightarrow>
      post_recv_buf cfg alloc_ok (nrecv cfg) rst =
        Inr (rst\<lparr>hugeq := pending, huge_pending := True,
                 trace := trace rst @
                   [Free (nrecv cfg), Memalign hbyte,
                    Post_recv (nrecv cfg) hbyte (Some hsrc) RMI_HUGE_DAT_TAG,
                    Send_ack hsrc (sizeof_int cfg)]\<rparr>))"
proof (intro conjI impI)
  assume "HEADER_LEN cfg \<le> nbyte \<and> nbyte \<le> max_msg_len cfg"
  then show "\<exists>st'. private_isend (Suc depth) cfg send_tests ack_tests st body nbyte dest func attr =
         Some (Inr (st',
           [Lock, Isend dest nbyte func
                    (if is_ordered cfg attr then attr OR push_bit 16 (ucast (send_counters st dest)) else attr)
                    RMI_TAG body, Unlock]))"
    by (simp add: send_locked_def Let_def)
next
  assume "nbyte < HEADER_LEN cfg \<and> nbyte \<le> max_msg_len cfg"
  then show "private_isend (Suc depth) cfg send_tests ack_tests st body nbyte dest func attr =
        Some (Inl (Buffer_too_small nbyte))"
    by simp
next
  assume h: "max_msg_len cfg < nbyte \<and> 0 < sizeof_size_t cfg \<and> info_len cfg \<le> max_msg_len cfg \<and>
    \<not> is_ordered cfg (ATTR_UNORDERED cfg) \<and> True \<in> set send_tests \<and> True \<in> set ack_tests"
  then have "HEADER_LEN cfg \<le> info_len cfg" by (simp add: info_len_header)
  with h show "\<exists>st'. private_isend (Suc (Suc depth)) cfg send_tests ack_tests st body nbyte dest func attr =
         Some (Inr (st',
           [Irecv_ack dest (sizeof_int cfg),
            Lock, Isend dest (info_len cfg) Huge_msg_handler (ATTR_UNORDERED cfg) RMI_TAG (rmi_rank cfg, nbyte), Unlock,
            Wait_send, Wait_ack,
            Lock, Isend dest nbyte func
                    (if is_ordered cfg attr then attr OR push_bit 16 (ucast (send_counters st dest)) else attr)
                    RMI_HUGE_DAT_TAG body, Unlock]))"
    using private_isend_huge [of cfg nbyte send_tests ack_tests depth st body dest func attr] by blast
next
  assume h: "max_msg_len cfg < nbyte \<and> 0 < sizeof_size_t cfg \<and> info_len cfg \<le> max_msg_len cfg \<and>
    True \<notin> set ack_tests"
  then have "HEADER_LEN cfg \<le> info_len cfg" by (simp add: info_len_header)
  with h show "private_isend (Suc (Suc depth)) cfg send_tests ack_tests st body nbyte dest func attr = None"
    using private_isend_blocks [of cfg nbyte ack_tests depth send_tests st body dest func attr] by blast
next
  assume "\<not> huge_pending rst \<and> hugeq rst = [] \<and> alloc_ok (snd (b_info buf))"
  then show "huge_msg_handler cfg alloc_ok buf rst =
        Inr (rst\<lparr>hugeq := [], huge_pending := True,
                 trace := trace rst @
                   [Memalign (snd (b_info buf)),
                    Post_recv (nrecv cfg) (snd (b_info buf)) (Some (fst (b_info buf))) RMI_HUGE_DAT_TAG,
                    Send_ack (fst (b_info buf)) (sizeof_int cfg)]\<rparr>)"
    by (simp add: huge_msg_handler_def post_pending_huge_msg_def Let_def)
next
  assume "huge_pending rst"
  then show "huge_msg_handler cfg alloc_ok buf rst = Inr (rst\<lparr>hugeq := hugeq rst @ [b_info buf]\<rparr>)"
    by (simp add: huge_msg_handler_def post_pending_huge_msg_def Let_def)
next
  assume "hugeq rst = (hsrc, hbyte) # pending \<and> alloc_ok hbyte"
  then show "post_recv_buf cfg alloc_ok (nrecv cfg) rst =
        Inr (rst\<lparr>hugeq := pending, huge_pending := True,
                 trace := trace rst @
                   [Free (nrecv cfg), Memalign hbyte,
                    Post_recv (nrecv cfg) hbyte (Some hsrc) RMI_HUGE_DAT_TAG,
                    Send_ack hsrc (sizeof_int cfg)]\<rparr>)"
    by (simp add: post_recv_buf_def post_pending_huge_msg_def Let_def)
qed

theorem isend_eager_or_rendezvous_witness:
  "private_isend 1 ex_cfg [] [] ex_sender (0, 0) 64 2 (User_handler 5) 1 =
     Some (Inr (ex_sender\<lparr>send_counters := (\<lambda>d. if d = 2 then 1 else 0), nmsg_sent := 1, nbyte_sent := 64\<rparr>,
                [Lock, Isend 2 64 (User_handler 5) 1 RMI_TAG (0, 0), Unlock])) \<and>
   private_isend 1 ex_cfg [] [] ex_sender (0, 0) 1024 2 (User_handler 5) 0 =
     Some (Inr (ex_sender\<lparr>nmsg_sent := 1, nbyte_sent := 1024\<rparr>,
                [Lock, Isend 2 1024 (User_handler 5) 0 RMI_TAG (0, 0), Unlock])) \<and>
   events_of (private_isend 2 ex_cfg [False, True] [False, False, True] ex_sender (0, 0) 1025 2 (User_handler 5) 1) =
     [Irecv_ack 2 4, Lock, Isend 2 80 Huge_msg_handler 0 RMI_TAG (7, 1025), Unlock, Wait_send, Wait_ack,
      Lock, Isend 2 1025 (User_handler 5) 1 RMI_HUGE_DAT_TAG (0, 0), Unlock] \<and>
   private_isend 2 ex_cfg [True] [False, False] ex_sender (0, 0) 1025 2 (User_handler 5) 1 = None \<and>
   huge_msg_handler ex_cfg (\<lambda>n. True) (ar_buf ex_huge_arrival) (ex_state (\<lambda>s. 0)) =
     Inr ((ex_state (\<lambda>s. 0))\<lparr>huge_pending := True,
            trace := [Memalign 5000, Post_recv 3 5000 (Some 1) RMI_HUGE_DAT_TAG, Send_ack 1 4]\<rparr>) \<and>
   huge_msg_handler ex_cfg (\<lambda>n. True) (ar_buf ex_huge_arrival) ((ex_state (\<lambda>s. 0))\<lparr>huge_pending := True\<rparr>) =
     Inr ((ex_state (\<lambda>s. 0))\<lparr>huge_pending := True, hugeq := [(1, 5000)]\<rparr>) \<and>
   post_recv_buf ex_cfg (\<lambda>n. True) 3 ((ex_state (\<lambda>s. 0))\<lparr>huge_pending := True, hugeq := [(1, 5000)]\<rparr>) =
     Inr ((ex_state (\<lambda>s. 0))\<lparr>huge_pending := True, hugeq := [],
            trace := [Free 3, Memalign 5000, Post_recv 3 5000 (Some 1) RMI_HUGE_DAT_TAG, Send_ack 1 4]\<rparr>)"
proof -
  have cfg: "HEADER_LEN ex_cfg = 64" "max_msg_len ex_cfg = 1024" "sizeof_size_t ex_cfg = 8"
    "info_len ex_cfg = 80" "ATTR_UNORDERED ex_cfg = 0" "sizeof_int ex_cfg = 4" "rmi_rank ex_cfg = 7"
    "nrecv ex_cfg = 3" "is_ordered ex_cfg 1" "\<not> is_ordered ex_cfg 0"
    by (simp_all add: ex_cfg_def info_len_def is_ordered_def)
  have p1: "private_isend 1 ex_cfg [] [] ex_sender (0, 0) 64 2 (User_handler 5) 1 =
     Some (Inr (ex_sender\<lparr>send_counters := (\<lambda>d. if d = 2 then 1 else 0), nmsg_sent := 1, nbyte_sent := 64\<rparr>,
                [Lock, Isend 2 64 (User_handler 5) 1 RMI_TAG (0, 0), Unlock]))"
    using isend_eager_or_rendezvous [where cfg = ex_cfg and nbyte = 64 and depth = 0 and send_tests = "[]"
        and ack_tests = "[]" and st = ex_sender and body = "(0, 0)" and dest = 2 and func = "User_handler 5"
        and attr = 1, THEN conjunct1]
    by (auto simp add: cfg send_locked_def ex_sender_def fun_eq_iff)
  have p2: "private_isend 1 ex_cfg [] [] ex_sender (0, 0) 1024 2 (User_handler 5) 0 =
     Some (Inr (ex_sender\<lparr>nmsg_sent := 1, nbyte_sent := 1024\<rparr>,
                [Lock, Isend 2 1024 (User_handler 5) 0 RMI_TAG (0, 0), Unlock]))"
    using isend_eager_or_rendezvous [where cfg = ex_cfg and nbyte = 1024 and depth = 0 and send_tests = "[]"
        and ack_tests = "[]" and st = ex_sender and body = "(0, 0)" and dest = 2 and func = "User_handler 5"
        and attr = 0, THEN conjunct1]
    by (auto simp add: cfg send_locked_def ex_sender_def)
  have p3: "events_of (private_isend 2 ex_cfg [False, True] [False, False, True] ex_sender (0, 0) 1025 2 (User_handler 5) 1) =
     [Irecv_ack 2 4, Lock, Isend 2 80 Huge_msg_handler 0 RMI_TAG (7, 1025), Unlock, Wait_send, Wait_ack,
      Lock, Isend 2 1025 (User_handler 5) 1 RMI_HUGE_DAT_TAG (0, 0), Unlock]"
    using isend_eager_or_rendezvous [where cfg = ex_cfg and nbyte = 1025 and depth = 0
        and send_tests = "[False, True]" and ack_tests = "[False, False, True]" and st = ex_sender
        and body = "(0, 0)" and dest = 2 and func = "User_handler 5" and attr = 1,
        THEN conjunct2, THEN conjunct2, THEN conjunct1]
    by (auto simp add: cfg events_of_def ex_sender_def numeral_2_eq_2)
  have p4: "private_isend 2 ex_cfg [True] [False, False] ex_sender (0, 0) 1025 2 (User_handler 5) 1 = None"
    using isend_eager_or_rendezvous [where cfg = ex_cfg and nbyte = 1025 and depth = 0
        and send_tests = "[True]" and ack_tests = "[False, False]" and st = ex_sender
        and body = "(0, 0)" and dest = 2 and func = "User_handler 5" and attr = 1,
        THEN conjunct2, THEN conjunct2, THEN conjunct2, THEN conjunct1]
    by (simp add: cfg numeral_2_eq_2)
  have p5: "huge_msg_handler ex_cfg (\<lambda>n. True) (ar_buf ex_huge_arrival) (ex_state (\<lambda>s. 0)) =
     Inr ((ex_state (\<lambda>s. 0))\<lparr>huge_pending := True,
            trace := [Memalign 5000, Post_recv 3 5000 (Some 1) RMI_HUGE_DAT_TAG, Send_ack 1 4]\<rparr>)"
    using isend_eager_or_rendezvous [where cfg = ex_cfg and rst = "ex_state (\<lambda>s. 0)" and alloc_ok = "\<lambda>n. True"
        and buf = "ar_buf ex_huge_arrival",
        THEN conjunct2, THEN conjunct2, THEN conjunct2, THEN conjunct2, THEN conjunct1]
    by (simp add: cfg ex_state_def ex_huge_arrival_def)
  have p6: "huge_msg_handler ex_cfg (\<lambda>n. True) (ar_buf ex_huge_arrival) ((ex_state (\<lambda>s. 0))\<lparr>huge_pending := True\<rparr>) =
     Inr ((ex_state (\<lambda>s. 0))\<lparr>huge_pending := True, hugeq := [(1, 5000)]\<rparr>)"
    using isend_eager_or_rendezvous [where cfg = ex_cfg and rst = "(ex_state (\<lambda>s. 0))\<lparr>huge_pending := True\<rparr>"
        and alloc_ok = "\<lambda>n. True" and buf = "ar_buf ex_huge_arrival",
        THEN conjunct2, THEN conjunct2, THEN conjunct2, THEN conjunct2, THEN conjunct2, THEN conjunct1]
    by (simp add: cfg ex_state_def ex_huge_arrival_def)
  have p7: "post_recv_buf ex_cfg (\<lambda>n. True) 3 ((ex_state (\<lambda>s. 0))\<lparr>huge_pending := True, hugeq := [(1, 5000)]\<rparr>) =
     Inr ((ex_state (\<lambda>s. 0))\<lparr>huge_pending := True, hugeq := [],
            trace := [Free 3, Memalign 5000, Post_recv 3 5000 (Some 1) RMI_HUGE_DAT_TAG, Send_ack 1 4]\<rparr>)"
    using isend_eager_or_rendezvous [where cfg = ex_cfg
        and rst = "(ex_state (\<lambda>s. 0))\<lparr>huge_pending := True, hugeq := [(1, 5000)]\<rparr>"
        and alloc_ok = "\<lambda>n. True" and hsrc = 1 and hbyte = 5000 and pending = "[]",
        THEN conjunct2, THEN conjunct2, THEN conjunct2, THEN conjunct2, THEN conjunct2, THEN conjunct2]
    by (simp add: cfg ex_state_def)
  from p1 p2 p3 p4 p5 p6 p7 show ?thesis by blast
qed

text \<open>
  A payload of 10 bytes is not larger than \<open>max_msg_len_\<close> and is not sent: \<open>isend\<close> raises
  an exception.  The ACK of a huge message has the four bytes of an \<open>int\<close>.
\<close>

theorem isend_small_payload_counterexample:
  "(10::nat) \<le> max_msg_len ex_cfg \<and>
   private_isend 1 ex_cfg [] [] ex_sender (0, 0) 10 2 (User_handler 5) 0 = Some (Inl (Buffer_too_small 10)) \<and>
   events_of (private_isend 1 ex_cfg [] [] ex_sender (0, 0) 10 2 (User_handler 5) 0) = [] \<and>
   trace (final (huge_msg_handler ex_cfg (\<lambda>n. True) (ar_buf ex_huge_arrival) (ex_state (\<lambda>s. 0)))) =
     [Memalign 5000, Post_recv 3 5000 (Some 1) RMI_HUGE_DAT_TAG, Send_ack 1 4]"
  by (simp add: ex_cfg_def events_of_def huge_msg_handler_def post_pending_huge_msg_def
      ex_huge_arrival_def ex_state_def final_def)

end
